theory Spec2Isabelle
  imports Main
begin

section \<open>Data model\<close>

text \<open>
  Pixel geometry. The source computes with JavaScript numbers; the window manager only
  ever adds, subtracts and compares pixel coordinates, so they are modelled as
  unbounded integers.
\<close>

record position =
  x :: int
  y :: int

record size_wh =
  width :: int
  height :: int

text \<open>
  A JavaScript value as far as the store and its persistence need it: the opaque
  \<open>data\<close> blob of a window and whatever \<open>JSON.parse\<close> may return. An object is the list
  of its properties in insertion order, each name once; numbers are integers.
\<close>

datatype js =
    JUndefined
  | JNull
  | JBool bool
  | JNum int
  | JStr string
  | JArr "js list"
  | JObj "(string \<times> js) list"

text \<open>
  The window object built by \<open>openWindow\<close>. Two fields are renamed because HOL has
  constants of the same name: \<open>wid\<close> is \<open>id\<close> and \<open>wsize\<close> is \<open>size\<close>.
  \<open>isNewlyOpened\<close> says whether the property \<open>_isNewlyOpened\<close> is present (it is
  created as \<open>true\<close>, and the window component deletes it after the opening animation).
\<close>

record window =
  wid :: string
  title :: string
  component :: string
  position :: position
  wsize :: size_wh
  zIndex :: int
  isMinimized :: bool
  isFocused :: bool
  data :: js
  isNewlyOpened :: bool

section \<open>Constants (utils/constants.js)\<close>

definition WINDOW_MIN_WIDTH :: int where "WINDOW_MIN_WIDTH = 300"
definition WINDOW_MIN_HEIGHT :: int where "WINDOW_MIN_HEIGHT = 200"
definition WINDOW_INITIAL_WIDTH :: int where "WINDOW_INITIAL_WIDTH = 600"
definition WINDOW_INITIAL_HEIGHT :: int where "WINDOW_INITIAL_HEIGHT = 400"
definition Z_INDEX_WINDOW_BASE :: int where "Z_INDEX_WINDOW_BASE = 100"
definition WINDOW_CASCADE_OFFSET :: int where "WINDOW_CASCADE_OFFSET = 30"
definition WINDOW_CASCADE_MAX :: int where "WINDOW_CASCADE_MAX = 200"
definition STORAGE_KEY_APP_STATE :: string where
  "STORAGE_KEY_APP_STATE = ''portfolio-os-state''"

text \<open>\<open>Object.values(THEMES)\<close>.\<close>

definition THEMES :: "string list" where
  "THEMES = [''dark'', ''light'', ''macos'', ''glass'', ''custom'']"

section \<open>Geometry (utils/window-manager.js)\<close>

definition constrainPosition :: "position \<Rightarrow> size_wh \<Rightarrow> size_wh \<Rightarrow> position" where
  "constrainPosition pos sz bounds =
     (let minX = 0;
          minY = 0;
          maxX = max (width bounds - width sz) 0;
          maxY = max (height bounds - height sz) 0
      in \<lparr> x = max minX (min (x pos) maxX),
           y = max minY (min (y pos) maxY) \<rparr>)"

text \<open>The rectangle \<open>r1\<close>/\<open>r2\<close> that \<open>isOverlapping\<close> builds from a window.\<close>

record rect =
  r_left :: int
  r_right :: int
  r_top :: int
  r_bottom :: int

definition rect_of :: "window \<Rightarrow> rect" where
  "rect_of w =
     \<lparr> r_left = x (position w),
       r_right = x (position w) + width (wsize w),
       r_top = y (position w),
       r_bottom = y (position w) + height (wsize w) \<rparr>"

definition isOverlapping :: "window \<Rightarrow> window \<Rightarrow> bool" where
  "isOverlapping windowData1 windowData2 =
     (let r1 = rect_of windowData1;
          r2 = rect_of windowData2
      in \<not> (r_right r1 < r_left r2 \<or>
             r_left r1 > r_right r2 \<or>
             r_bottom r1 < r_top r2 \<or>
             r_top r1 > r_bottom r2))"

text \<open>
  The keys of \<open>cursorMap\<close> in \<open>getResizeCursor\<close>: the eight handle identifiers.
\<close>

definition getResizeCursor :: "string \<Rightarrow> string" where
  "getResizeCursor handle =
     (case map_of
        [(''n'', ''n-resize''), (''s'', ''s-resize''), (''e'', ''e-resize''),
         (''w'', ''w-resize''), (''ne'', ''ne-resize''), (''nw'', ''nw-resize''),
         (''se'', ''se-resize''), (''sw'', ''sw-resize'')] handle of
        Some c \<Rightarrow> c
      | None \<Rightarrow> ''default'')"

definition resize_handles :: "string list" where
  "resize_handles = [''n'', ''s'', ''e'', ''w'', ''ne'', ''nw'', ''se'', ''sw'']"

text \<open>\<open>handle.includes(c)\<close> for a one-character string \<open>c\<close>.\<close>

definition str_includes :: "string \<Rightarrow> char \<Rightarrow> bool" where
  "str_includes handle c = (c \<in> set handle)"

record geometry =
  g_position :: position
  g_size :: size_wh

definition default_minSize :: size_wh where
  "default_minSize = \<lparr> width = WINDOW_MIN_WIDTH, height = WINDOW_MIN_HEIGHT \<rparr>"

text \<open>
  \<open>calculateResize(handle, startPos, currentPos, originalWindowData, minSize)\<close>; a
  caller that leaves \<open>minSize\<close> out gets \<open>default_minSize\<close>.
\<close>

definition calculateResize ::
  "string \<Rightarrow> position \<Rightarrow> position \<Rightarrow> geometry \<Rightarrow> size_wh \<Rightarrow> geometry" where
  "calculateResize handle startPos currentPos originalWindowData minSize =
     (let deltaX = x currentPos - x startPos;
          deltaY = y currentPos - y startPos;
          ox = x (g_position originalWindowData);
          oy = y (g_position originalWindowData);
          ow = width (g_size originalWindowData);
          oh = height (g_size originalWindowData);
          (x1, width1) =
             (if str_includes handle CHR ''e'' then (ox, max (width minSize) (ow + deltaX))
              else if str_includes handle CHR ''w'' then
                (let newWidth = max (width minSize) (ow - deltaX);
                     widthDiff = ow - newWidth
                 in (ox + widthDiff, newWidth))
              else (ox, ow));
          (y1, height1) =
             (if str_includes handle CHR ''s'' then (oy, max (height minSize) (oh + deltaY))
              else if str_includes handle CHR ''n'' then
                (let newHeight = max (height minSize) (oh - deltaY);
                     heightDiff = oh - newHeight
                 in (oy + heightDiff, newHeight))
              else (oy, oh))
      in \<lparr> g_position = \<lparr> x = x1, y = y1 \<rparr>,
           g_size = \<lparr> width = width1, height = height1 \<rparr> \<rparr>)"


section \<open>The desktop state store (context/app-state.js)\<close>

text \<open>
  A JavaScript \<open>Map\<close> is kept as the list of its entries in insertion order;
  \<open>Map.prototype.set\<close> overwrites the value of a key that is present and appends a new
  entry otherwise. The key comparison is a parameter: equality for strings, and
  \<open>same_key\<close> below for arbitrary values. A \<open>Set\<close> of strings is the list of its
  members in insertion order.
\<close>

fun map_set :: "('k \<Rightarrow> 'k \<Rightarrow> bool) \<Rightarrow> ('k \<times> 'v) list \<Rightarrow> 'k \<Rightarrow> 'v \<Rightarrow> ('k \<times> 'v) list" where
  "map_set same [] k v = [(k, v)]"
| "map_set same ((k', v') # m) k v =
     (if same k' k then (k', v) # m else (k', v') # map_set same m k v)"

fun new_Map_entries :: "('k \<Rightarrow> 'k \<Rightarrow> bool) \<Rightarrow> ('k \<times> 'v) list \<Rightarrow> ('k \<times> 'v) list \<Rightarrow> ('k \<times> 'v) list" where
  "new_Map_entries same m [] = m"
| "new_Map_entries same m ((k, v) # es) = new_Map_entries same (map_set same m k v) es"

definition new_Set :: "string list \<Rightarrow> string list" where
  "new_Set icons = rev (remdups (rev icons))"

record app_state =
  theme :: string
  windows :: "window list"
  nextZIndex :: int
  desktopSize :: size_wh
  focusedWindowId :: "string option"
  iconPositions :: "(string \<times> position) list"
  selectedIcons :: "string list"

text \<open>
  \<open>initialState\<close>; the argument is \<open>{ width: window.innerWidth, height:
  window.innerHeight }\<close>, read from the browser when the module is loaded.
\<close>

definition initialState :: "size_wh \<Rightarrow> app_state" where
  "initialState inner =
     \<lparr> theme = ''dark'',
       windows = [],
       nextZIndex = Z_INDEX_WINDOW_BASE,
       desktopSize = inner,
       focusedWindowId = None,
       iconPositions = [],
       selectedIcons = [] \<rparr>"

text \<open>
  \<open>_updateWindow(id, updates)\<close> and \<open>_updateWindowWith(id, updateFn)\<close>: the object
  spread \<open>{ ...w, ...updates }\<close> is the record update \<open>f\<close>.
\<close>

definition updateWindowWith :: "string \<Rightarrow> (window \<Rightarrow> window) \<Rightarrow> window list \<Rightarrow> window list" where
  "updateWindowWith i f ws = map (\<lambda>w. if wid w = i then f w else w) ws"

text \<open>
  The configuration object of \<open>openWindow\<close>. A property that is absent is \<open>None\<close>
  (\<open>JUndefined\<close> for \<open>data\<close>); \<open>a || b\<close> takes \<open>b\<close> when \<open>a\<close> is absent or falsy, and
  the empty string is falsy.
\<close>

record config =
  cfg_id :: "string option"
  cfg_title :: "string option"
  cfg_component :: "string option"
  cfg_position :: "position option"
  cfg_size :: "size_wh option"
  cfg_data :: js

fun falsy :: "js \<Rightarrow> bool" where
  "falsy JUndefined = True"
| "falsy JNull = True"
| "falsy (JBool b) = (\<not> b)"
| "falsy (JNum n) = (n = 0)"
| "falsy (JStr s) = (s = [])"
| "falsy (JArr _) = False"
| "falsy (JObj _) = False"

definition str_or :: "string option \<Rightarrow> string \<Rightarrow> string" where
  "str_or a b = (case a of None \<Rightarrow> b | Some s \<Rightarrow> if s = [] then b else s)"

definition getDefaultPosition :: "app_state \<Rightarrow> position" where
  "getDefaultPosition s =
     (let offset = (int (length (windows s)) * WINDOW_CASCADE_OFFSET) mod WINDOW_CASCADE_MAX
      in \<lparr> x = 100 + offset, y = 100 + offset \<rparr>)"

text \<open>
  \<open>openWindow(config)\<close> returns the id and updates the state. \<open>generated\<close> is what
  \<open>generateWindowId()\<close> (time stamp and random suffix) returns when it is called.
\<close>

definition openWindow :: "config \<Rightarrow> string \<Rightarrow> app_state \<Rightarrow> string \<times> app_state" where
  "openWindow cfg generated s =
     (let i = str_or (cfg_id cfg) generated;
          defaultWindow =
            \<lparr> wid = i,
              title = str_or (cfg_title cfg) ''Untitled'',
              component = str_or (cfg_component cfg) ''div'',
              position = (case cfg_position cfg of Some p \<Rightarrow> p | None \<Rightarrow> getDefaultPosition s),
              wsize = (case cfg_size cfg of Some sz \<Rightarrow> sz
                       | None \<Rightarrow> \<lparr> width = WINDOW_INITIAL_WIDTH, height = WINDOW_INITIAL_HEIGHT \<rparr>),
              zIndex = nextZIndex s,
              isMinimized = False,
              isFocused = True,
              data = (if falsy (cfg_data cfg) then JObj [] else cfg_data cfg),
              isNewlyOpened = True \<rparr>;
          ws = map (\<lambda>w. w\<lparr>isFocused := False\<rparr>) (windows s) @ [defaultWindow]
      in (i, s\<lparr> windows := ws,
                nextZIndex := nextZIndex s + 1,
                focusedWindowId := Some i \<rparr>))"

text \<open>
  \<open>arr.reduce((max, w) => w.zIndex > max.zIndex ? w : max, arr[0])\<close>. The result is an
  element of the array, which the caller then mutates in place, so the model returns its
  index: \<open>idxs\<close> are the indices (into \<open>ws\<close>) of the elements of \<open>arr\<close>, in order.
\<close>

definition reduce_max :: "window list \<Rightarrow> nat list \<Rightarrow> nat" where
  "reduce_max ws idxs =
     foldl (\<lambda>mx k. if zIndex (ws ! k) > zIndex (ws ! mx) then k else mx) (hd idxs) idxs"

definition closeWindow :: "string \<Rightarrow> app_state \<Rightarrow> app_state" where
  "closeWindow i s =
     (let ws = filter (\<lambda>w. wid w \<noteq> i) (windows s)
      in if focusedWindowId s = Some i \<and> length ws > 0 then
           (let k = reduce_max ws [0..<length ws];
                nextWindow = ws ! k
            in s\<lparr> windows := ws[k := nextWindow\<lparr>isFocused := True\<rparr>],
                 focusedWindowId := Some (wid nextWindow) \<rparr>)
         else if length ws = 0 then s\<lparr> windows := ws, focusedWindowId := None \<rparr>
         else s\<lparr> windows := ws \<rparr>)"

definition focusWindow :: "string \<Rightarrow> app_state \<Rightarrow> app_state" where
  "focusWindow i s =
     (let ws = map (\<lambda>w. if wid w = i
                          then w\<lparr> isFocused := True, zIndex := nextZIndex s, isMinimized := False \<rparr>
                          else w\<lparr> isFocused := False \<rparr>) (windows s)
      in s\<lparr> windows := ws,
           nextZIndex := nextZIndex s + 1,
           focusedWindowId := Some i \<rparr>)"

definition minimizeWindow :: "string \<Rightarrow> app_state \<Rightarrow> app_state" where
  "minimizeWindow i s =
     (let ws = updateWindowWith i (\<lambda>w. w\<lparr> isMinimized := True, isFocused := False \<rparr>) (windows s);
          visibleWindows = filter (\<lambda>k. \<not> isMinimized (ws ! k)) [0..<length ws]
      in if length visibleWindows > 0 then
           (let k = reduce_max ws visibleWindows;
                nextWindow = ws ! k
            in s\<lparr> windows := ws[k := nextWindow\<lparr>isFocused := True\<rparr>],
                 focusedWindowId := Some (wid nextWindow) \<rparr>)
         else s\<lparr> windows := ws, focusedWindowId := None \<rparr>)"

definition restoreWindow :: "string \<Rightarrow> app_state \<Rightarrow> app_state" where
  "restoreWindow i s = focusWindow i s"

definition maximizeWindow :: "string \<Rightarrow> app_state \<Rightarrow> app_state" where
  "maximizeWindow i s =
     (let ws = updateWindowWith i
                 (\<lambda>w. w\<lparr> position := \<lparr> x = 0, y = 0 \<rparr>,
                         wsize := \<lparr> width = width (desktopSize s),
                                    height = height (desktopSize s) - 80 \<rparr> \<rparr>) (windows s)
      in s\<lparr> windows := ws \<rparr>)"

text \<open>
  \<open>(h - 80) * 0.7\<close> is a multiplication of doubles. The double nearest to 0.7 is
  \<open>6305039478318694 * 2^-53\<close>, an integer \<open>n\<close> of size below \<open>2^53\<close> is a double itself, and the
  product is the exact product rounded to 53 significant bits, ties to even.
  \<open>times_0_7 n\<close> is that double, scaled by \<open>2^53\<close>; \<open>floor_times_0_7 n\<close> is
  \<open>Math.floor(n * 0.7)\<close>. (It is one below the exact \<open>7 n / 10\<close> for some multiples of
  10: 461 for \<open>n = 660\<close>.)
\<close>

definition double_0_7 :: int where
  "double_0_7 = 6305039478318694"

function bit_length :: "int \<Rightarrow> nat" where
  "bit_length p = (if p \<le> 0 then 0 else Suc (bit_length (p div 2)))"
  by pat_completeness auto
termination
  by (relation "measure nat") auto

definition round_to_double :: "int \<Rightarrow> int" where
  "round_to_double p =
     (let k = bit_length p - 53;
          q = p div 2 ^ k;
          r = p mod 2 ^ k;
          half = 2 ^ (k - 1)
      in if k = 0 then p
         else if r > half \<or> (r = half \<and> odd q) then (q + 1) * 2 ^ k
         else q * 2 ^ k)"

definition times_0_7 :: "int \<Rightarrow> int" where
  "times_0_7 n =
     (if n < 0 then - round_to_double (- n * double_0_7)
      else round_to_double (n * double_0_7))"

definition floor_times_0_7 :: "int \<Rightarrow> int" where
  "floor_times_0_7 n = times_0_7 n div 2 ^ 53"

text \<open>
  \<open>centerWindow\<close>. The desktop size is a pair of integers (the browser's \<open>innerWidth\<close>
  and \<open>innerHeight\<close>), halving an integer is exact in doubles, and \<open>Math.floor\<close> of the
  half is integer division, which rounds down in HOL as well.
\<close>

definition centerWindow :: "string \<Rightarrow> app_state \<Rightarrow> app_state" where
  "centerWindow i s =
     (let halfWidth = width (desktopSize s) div 2;
          centerHeight = floor_times_0_7 (height (desktopSize s) - 80);
          cx = (width (desktopSize s) - halfWidth) div 2;
          cy = 80;
          ws = updateWindowWith i
                 (\<lambda>w. w\<lparr> position := \<lparr> x = cx, y = cy \<rparr>,
                         wsize := \<lparr> width = halfWidth, height = centerHeight \<rparr> \<rparr>) (windows s)
      in s\<lparr> windows := ws \<rparr>)"

definition updateWindowPosition :: "string \<Rightarrow> position \<Rightarrow> app_state \<Rightarrow> app_state" where
  "updateWindowPosition i p s =
     s\<lparr> windows := updateWindowWith i (\<lambda>w. w\<lparr> position := p \<rparr>) (windows s) \<rparr>"

definition updateWindowSize :: "string \<Rightarrow> size_wh \<Rightarrow> app_state \<Rightarrow> app_state" where
  "updateWindowSize i sz s =
     s\<lparr> windows := updateWindowWith i (\<lambda>w. w\<lparr> wsize := sz \<rparr>) (windows s) \<rparr>"

text \<open>
  \<open>setTheme\<close> also writes the state to local storage at once; the store side is here,
  the write is \<open>saveToLocalStorage\<close> below.
\<close>

definition setTheme :: "string \<Rightarrow> app_state \<Rightarrow> app_state" where
  "setTheme t s = s\<lparr> theme := t \<rparr>"

definition updateDesktopSize :: "size_wh \<Rightarrow> app_state \<Rightarrow> app_state" where
  "updateDesktopSize sz s = s\<lparr> desktopSize := sz \<rparr>"

definition setIconPositions :: "(string \<times> position) list \<Rightarrow> app_state \<Rightarrow> app_state" where
  "setIconPositions positions s = s\<lparr> iconPositions := new_Map_entries (=) [] positions \<rparr>"

definition updateIconPosition :: "string \<Rightarrow> position \<Rightarrow> app_state \<Rightarrow> app_state" where
  "updateIconPosition appId p s = s\<lparr> iconPositions := map_set (=) (iconPositions s) appId p \<rparr>"

definition setSelectedIcons :: "string list \<Rightarrow> app_state \<Rightarrow> app_state" where
  "setSelectedIcons icons s = s\<lparr> selectedIcons := new_Set icons \<rparr>"

definition clearSelectedIcons :: "app_state \<Rightarrow> app_state" where
  "clearSelectedIcons s = s\<lparr> selectedIcons := [] \<rparr>"

subsection \<open>Command sequences\<close>

text \<open>
  One constructor per command method of the store. \<open>OpenWindow\<close> carries, besides the
  configuration, the id that \<open>generateWindowId\<close> would produce.
\<close>

datatype command =
    OpenWindow config string
  | CloseWindow string
  | FocusWindow string
  | MinimizeWindow string
  | RestoreWindow string
  | MaximizeWindow string
  | CenterWindow string
  | UpdateWindowPosition string position
  | UpdateWindowSize string size_wh
  | SetTheme string
  | UpdateDesktopSize size_wh
  | SetIconPositions "(string \<times> position) list"
  | UpdateIconPosition string position
  | SetSelectedIcons "string list"
  | ClearSelectedIcons

fun exec :: "command \<Rightarrow> app_state \<Rightarrow> app_state" where
  "exec (OpenWindow cfg generated) s = snd (openWindow cfg generated s)"
| "exec (CloseWindow i) s = closeWindow i s"
| "exec (FocusWindow i) s = focusWindow i s"
| "exec (MinimizeWindow i) s = minimizeWindow i s"
| "exec (RestoreWindow i) s = restoreWindow i s"
| "exec (MaximizeWindow i) s = maximizeWindow i s"
| "exec (CenterWindow i) s = centerWindow i s"
| "exec (UpdateWindowPosition i p) s = updateWindowPosition i p s"
| "exec (UpdateWindowSize i sz) s = updateWindowSize i sz s"
| "exec (SetTheme t) s = setTheme t s"
| "exec (UpdateDesktopSize sz) s = updateDesktopSize sz s"
| "exec (SetIconPositions ps) s = setIconPositions ps s"
| "exec (UpdateIconPosition a p) s = updateIconPosition a p s"
| "exec (SetSelectedIcons icons) s = setSelectedIcons icons s"
| "exec (ClearSelectedIcons) s = clearSelectedIcons s"

text \<open>The state after issuing the commands \<open>cs\<close>, first to last, in state \<open>s\<close>.\<close>

fun run :: "command list \<Rightarrow> app_state \<Rightarrow> app_state" where
  "run [] s = s"
| "run (c # cs) s = run cs (exec c s)"

text \<open>
  The focus discipline of the data model: with a window that is not minimized, exactly
  one window has \<open>isFocused\<close>; otherwise (no window, or all minimized) none has.
\<close>

definition focus_unique :: "app_state \<Rightarrow> bool" where
  "focus_unique s =
     (if list_ex (\<lambda>w. \<not> isMinimized w) (windows s)
      then length (filter isFocused (windows s)) = 1
      else filter isFocused (windows s) = [])"

section \<open>Persistence (saveToLocalStorage, loadFromLocalStorage)\<close>

text \<open>
  The browser's \<open>localStorage\<close>: the stored items, whether the store can be used at all
  (its methods throw when it cannot), and how long a value it still accepts
  (\<open>setItem\<close> throws \<open>QuotaExceededError\<close> beyond that). A call that throws is \<open>None\<close>.
\<close>

record localStorage =
  items :: "string \<Rightarrow> string option"
  available :: bool
  quota :: nat

definition getItem :: "localStorage \<Rightarrow> string \<Rightarrow> string option option" where
  "getItem ls k = (if available ls then Some (items ls k) else None)"


definition removeItem :: "localStorage \<Rightarrow> string \<Rightarrow> localStorage option" where
  "removeItem ls k =
     (if available ls then Some (ls\<lparr> items := (items ls)(k := None) \<rparr>) else None)"

text \<open>How the store's typed values look as JavaScript values.\<close>

definition js_of_position :: "position \<Rightarrow> js" where
  "js_of_position p = JObj [(''x'', JNum (x p)), (''y'', JNum (y p))]"

definition js_of_size :: "size_wh \<Rightarrow> js" where
  "js_of_size sz = JObj [(''width'', JNum (width sz)), (''height'', JNum (height sz))]"

definition js_of_window :: "window \<Rightarrow> js" where
  "js_of_window w =
     JObj ([(''id'', JStr (wid w)),
           (''title'', JStr (title w)),
           (''component'', JStr (component w)),
           (''position'', js_of_position (position w)),
           (''size'', js_of_size (wsize w)),
           (''zIndex'', JNum (zIndex w)),
           (''isMinimized'', JBool (isMinimized w)),
           (''isFocused'', JBool (isFocused w)),
           (''data'', data w)]
          @ (if isNewlyOpened w then [(''_isNewlyOpened'', JBool True)] else []))"

text \<open>
  The three fields of \<open>this.state\<close> that loading assigns. After a load they hold whatever
  the payload held, so they are JavaScript values here; \<open>raw_of\<close> gives them for a state
  of the store.
\<close>

record raw_state =
  r_theme :: js
  r_windows :: js
  r_iconPositions :: "(js \<times> js) list"

definition raw_of :: "app_state \<Rightarrow> raw_state" where
  "raw_of s =
     \<lparr> r_theme = JStr (theme s),
       r_windows = JArr (map js_of_window (windows s)),
       r_iconPositions = map (\<lambda>(k, p). (JStr k, js_of_position p)) (iconPositions s) \<rparr>"



fun typeof :: "js \<Rightarrow> string" where
  "typeof JUndefined = ''undefined''"
| "typeof JNull = ''object''"
| "typeof (JBool _) = ''boolean''"
| "typeof (JNum _) = ''number''"
| "typeof (JStr _) = ''string''"
| "typeof (JArr _) = ''object''"
| "typeof (JObj _) = ''object''"

text \<open>
  Property access \<open>v.name\<close> on a parsed value (an array has none of the names read
  here), and \<open>e[0]\<close>, \<open>e[1]\<close> on an entry object.
\<close>

fun get_prop :: "js \<Rightarrow> string \<Rightarrow> js" where
  "get_prop (JObj kvs) name = (case map_of kvs name of Some v \<Rightarrow> v | None \<Rightarrow> JUndefined)"
| "get_prop _ name = JUndefined"

fun entry_at :: "js \<Rightarrow> nat \<Rightarrow> js" where
  "entry_at (JArr vs) n = (if n < length vs then vs ! n else JUndefined)"
| "entry_at (JObj kvs) n = get_prop (JObj kvs) (if n = 0 then ''0'' else ''1'')"
| "entry_at _ n = JUndefined"

fun isArray :: "js \<Rightarrow> bool" where
  "isArray (JArr _) = True"
| "isArray _ = False"

fun isObject :: "js \<Rightarrow> bool" where
  "isObject (JArr _) = True"
| "isObject (JObj _) = True"
| "isObject _ = False"

text \<open>
  Key comparison of a \<open>Map\<close>: primitive keys by value; an array or object key is the
  same key only if it is the same object, and the objects of a freshly parsed payload
  are all different.
\<close>

definition same_key :: "js \<Rightarrow> js \<Rightarrow> bool" where
  "same_key a b = (\<not> isObject a \<and> a = b)"

text \<open>
  \<open>new Map(iterable)\<close> on a parsed array: every element has to be an object (else
  \<open>TypeError\<close>, here \<open>None\<close>), and contributes the entry \<open>(e[0], e[1])\<close>.
\<close>

fun new_Map :: "(js \<times> js) list \<Rightarrow> js list \<Rightarrow> (js \<times> js) list option" where
  "new_Map m [] = Some m"
| "new_Map m (e # es) =
     (if isObject e then new_Map (map_set same_key m (entry_at e 0) (entry_at e 1)) es
      else None)"

fun elements :: "js \<Rightarrow> js list" where
  "elements (JArr vs) = vs"
| "elements _ = []"

text \<open>The \<open>catch\<close> block of \<open>loadFromLocalStorage\<close>: remove the entry; a failure of
  \<open>removeItem\<close> itself is caught and logged.\<close>

definition clear_corrupted :: "localStorage \<Rightarrow> localStorage" where
  "clear_corrupted ls =
     (case removeItem ls STORAGE_KEY_APP_STATE of Some ls' \<Rightarrow> ls' | None \<Rightarrow> ls)"

text \<open>
  \<open>loadFromLocalStorage\<close>. \<open>JSON_parse\<close> is the runtime's \<open>JSON.parse\<close>, \<open>None\<close> when it
  throws. The assignments before a throw stay in the state.
\<close>

definition loadFromLocalStorage ::
  "(string \<Rightarrow> js option) \<Rightarrow> raw_state \<Rightarrow> localStorage \<Rightarrow> raw_state \<times> localStorage" where
  "loadFromLocalStorage JSON_parse st ls =
     (case getItem ls STORAGE_KEY_APP_STATE of
        None \<Rightarrow> (st, clear_corrupted ls)
      | Some None \<Rightarrow> (st, ls)
      | Some (Some saved) \<Rightarrow>
          if saved = [] then (st, ls)
          else
            (case JSON_parse saved of
               None \<Rightarrow> (st, clear_corrupted ls)
             | Some parsed \<Rightarrow>
                 if falsy parsed \<or> typeof parsed \<noteq> ''object'' then (st, ls)
                 else
                   (let st1 = (if \<not> falsy (get_prop parsed ''theme'')
                                  \<and> get_prop parsed ''theme'' \<in> set (map JStr THEMES)
                               then st\<lparr> r_theme := get_prop parsed ''theme'' \<rparr> else st);
                        ip = get_prop parsed ''iconPositions''
                    in if \<not> falsy ip \<and> isArray ip then
                         (case new_Map [] (elements ip) of
                            None \<Rightarrow> (st1, clear_corrupted ls)
                          | Some m \<Rightarrow>
                              (st1\<lparr> r_iconPositions := m, r_windows := get_prop parsed ''windows'' \<rparr>, ls))
                       else (st1\<lparr> r_windows := get_prop parsed ''windows'' \<rparr>, ls))))"

section \<open>Command sequences that respect the store's preconditions\<close>

text \<open>
  The store checks none of these. A command is \<open>admissible\<close> in a state when
  \<^item> \<open>openWindow\<close> is given (or generates) an id that no live window carries;
  \<^item> \<open>focusWindow\<close> and \<open>restoreWindow\<close> name a live window;
  \<^item> \<open>closeWindow\<close>, when it closes the window that \<open>focusedWindowId\<close> names and others
    remain, hands the focus to a window that is not minimized.
  Every other command is admissible everywhere.
\<close>

fun admissible_cmd :: "command \<Rightarrow> app_state \<Rightarrow> bool" where
  "admissible_cmd (OpenWindow cfg generated) s =
     (fst (openWindow cfg generated s) \<notin> set (map wid (windows s)))"
| "admissible_cmd (FocusWindow i) s = (i \<in> set (map wid (windows s)))"
| "admissible_cmd (RestoreWindow i) s = (i \<in> set (map wid (windows s)))"
| "admissible_cmd (CloseWindow i) s =
     (let ws = filter (\<lambda>w. wid w \<noteq> i) (windows s)
      in if focusedWindowId s = Some i \<and> length ws > 0
         then \<not> isMinimized (ws ! reduce_max ws [0..<length ws])
         else True)"
| "admissible_cmd _ s = True"

fun admissible :: "command list \<Rightarrow> app_state \<Rightarrow> bool" where
  "admissible [] s = True"
| "admissible (c # cs) s = (admissible_cmd c s \<and> admissible cs (exec c s))"

section \<open>Example inputs\<close>

definition ex_config :: "string \<Rightarrow> config" where
  "ex_config i =
     \<lparr> cfg_id = Some i, cfg_title = None, cfg_component = None,
       cfg_position = None, cfg_size = None, cfg_data = JUndefined \<rparr>"

definition ex_desktop :: size_wh where
  "ex_desktop = \<lparr> width = 1024, height = 768 \<rparr>"

definition ex_window :: "string \<Rightarrow> int \<Rightarrow> bool \<Rightarrow> window" where
  "ex_window i z f =
     \<lparr> wid = i, title = ''Untitled'', component = ''div'',
       position = \<lparr> x = 100, y = 100 \<rparr>,
       wsize = \<lparr> width = 600, height = 400 \<rparr>,
       zIndex = z, isMinimized = False, isFocused = f, data = JObj [],
       isNewlyOpened = False \<rparr>"

definition ex_geometry :: geometry where
  "ex_geometry = \<lparr> g_position = \<lparr> x = 50, y = 50 \<rparr>, g_size = \<lparr> width = 200, height = 100 \<rparr> \<rparr>"

text \<open>
  Three windows, \<open>A\<close> (zIndex 5, focused), \<open>C\<close> (zIndex 3) and \<open>B\<close> (zIndex 7), none
  minimized.
\<close>

definition ex_three_windows :: app_state where
  "ex_three_windows = (initialState ex_desktop)
     \<lparr> windows := [ex_window ''A'' 5 True, ex_window ''C'' 3 False, ex_window ''B'' 7 False],
       nextZIndex := 8, focusedWindowId := Some ''A'' \<rparr>"

section \<open>Invariants of the store\<close>

text \<open>
  What the focus and z-order discipline depend on in a window: its id, \<open>zIndex\<close>,
  \<open>isMinimized\<close> and \<open>isFocused\<close>.
\<close>

datatype core = Core (c_id: string) (c_z: int) (c_min: bool) (c_foc: bool)

definition core :: "window \<Rightarrow> core" where
  "core w = Core (wid w) (zIndex w) (isMinimized w) (isFocused w)"

text \<open>
  The focus invariant: ids and z-indices are pairwise different and below the counter; a
  focused window is not minimized, is the one \<open>focusedWindowId\<close> names and has the
  highest \<open>zIndex\<close> among the windows that are not minimized; there is a focused window
  when some window is not minimized; and \<open>focusedWindowId\<close> is null when no window is
  focused.
\<close>

definition core_ok :: "core list \<Rightarrow> int \<Rightarrow> string option \<Rightarrow> bool" where
  "core_ok cs n fid =
     (distinct (map c_id cs)
      \<and> distinct (map c_z cs)
      \<and> (\<forall>c\<in>set cs. c_z c < n)
      \<and> (\<forall>c\<in>set cs. c_foc c \<longrightarrow>
            \<not> c_min c \<and> fid = Some (c_id c) \<and> (\<forall>d\<in>set cs. \<not> c_min d \<longrightarrow> c_z d \<le> c_z c))
      \<and> ((\<exists>c\<in>set cs. \<not> c_min c) \<longrightarrow> (\<exists>c\<in>set cs. c_foc c))
      \<and> ((\<forall>c\<in>set cs. \<not> c_foc c) \<longrightarrow> fid = None))"

definition focus_ok :: "app_state \<Rightarrow> bool" where
  "focus_ok s = core_ok (map core (windows s)) (nextZIndex s) (focusedWindowId s)"

text \<open>
  The z-order invariant: every \<open>zIndex\<close> is below the counter, and windows with the same
  \<open>zIndex\<close> have the same id.
\<close>

definition zcore_ok :: "core list \<Rightarrow> int \<Rightarrow> bool" where
  "zcore_ok cs n =
     ((\<forall>c\<in>set cs. c_z c < n)
      \<and> (\<forall>c\<in>set cs. \<forall>d\<in>set cs. c_z c = c_z d \<longrightarrow> c_id c = c_id d))"

definition zorder_ok :: "app_state \<Rightarrow> bool" where
  "zorder_ok s = zcore_ok (map core (windows s)) (nextZIndex s)"





definition ex_storage :: "string \<Rightarrow> localStorage" where
  "ex_storage txt =
     \<lparr> items = (\<lambda>k. if k = STORAGE_KEY_APP_STATE then Some txt else None),
       available = True, quota = 5000000 \<rparr>"

definition ex_parse_number :: "string \<Rightarrow> js option" where
  "ex_parse_number txt = (if txt = ''5'' then Some (JNum 5) else None)"

definition ex_payload_bad_theme :: js where
  "ex_payload_bad_theme =
     JObj [(''theme'', JStr ''neon''),
           (''windows'', JArr []),
           (''iconPositions'', JArr [JArr [JStr ''about'', JObj [(''x'', JNum 20), (''y'', JNum 40)]]])]"

definition ex_parse_bad_theme :: "string \<Rightarrow> js option" where
  "ex_parse_bad_theme txt = (if txt = ''{neon}'' then Some ex_payload_bad_theme else None)"

definition ex_payload_bad_windows :: js where
  "ex_payload_bad_windows = JObj [(''theme'', JStr ''light''), (''windows'', JNum 5)]"

definition ex_parse_bad_windows :: "string \<Rightarrow> js option" where
  "ex_parse_bad_windows txt = (if txt = ''{5}'' then Some ex_payload_bad_windows else None)"

section \<open>Geometry: verified properties\<close>

text \<open>
  C7. \<open>constrainPosition\<close> puts \<open>x\<close> into \<open>[0, max (bounds.width - size.width) 0]\<close> and
  \<open>y\<close> into \<open>[0, max (bounds.height - size.height) 0]\<close>, and applying it a second time
  with the same size and bounds changes nothing.
\<close>

theorem constrainPosition_idempotent:
  "constrainPosition (constrainPosition p s b) s b = constrainPosition p s b
   \<and> x (constrainPosition p s b) = max 0 (min (x p) (max (width b - width s) 0))
   \<and> y (constrainPosition p s b) = max 0 (min (y p) (max (height b - height s) 0))
   \<and> 0 \<le> x (constrainPosition p s b)
   \<and> x (constrainPosition p s b) \<le> max (width b - width s) 0
   \<and> 0 \<le> y (constrainPosition p s b)
   \<and> y (constrainPosition p s b) \<le> max (height b - height s) 0"
  by (simp add: constrainPosition_def Let_def)

text \<open>
  C8. \<open>isOverlapping a b\<close> is exactly the negation of "a.right < b.left or a.left >
  b.right or a.bottom < b.top or a.top > b.bottom", with \<open>right = x + width\<close> and \<open>bottom =
  y + height\<close>. So two windows (of non-negative width) that share a vertical edge,
  \<open>a.right = b.left\<close> with vertical extents that meet, are reported as overlapping.
\<close>

theorem isOverlapping_touching_edges:
  "isOverlapping a b =
     (\<not> (x (position a) + width (wsize a) < x (position b)
         \<or> x (position a) > x (position b) + width (wsize b)
         \<or> y (position a) + height (wsize a) < y (position b)
         \<or> y (position a) > y (position b) + height (wsize b)))
   \<and> (x (position a) + width (wsize a) = x (position b)
        \<and> 0 \<le> width (wsize a) \<and> 0 \<le> width (wsize b)
        \<and> y (position a) \<le> y (position b) + height (wsize b)
        \<and> y (position b) \<le> y (position a) + height (wsize a)
      \<longrightarrow> isOverlapping a b)"
  by (auto simp add: isOverlapping_def rect_of_def Let_def)

theorem isOverlapping_touching_edges_witness:
  "isOverlapping (ex_window ''a'' 5 True)
     ((ex_window ''b'' 7 False)\<lparr> position := \<lparr> x = 700, y = 300 \<rparr> \<rparr>)"
  using isOverlapping_touching_edges
    [of "ex_window ''a'' 5 True" "(ex_window ''b'' 7 False)\<lparr> position := \<lparr> x = 700, y = 300 \<rparr> \<rparr>"]
  by (simp add: ex_window_def)

text \<open>
  With the default minimum size \<open>300 x 200\<close> (also the only minimum the window component
  passes) the \<open>200 x 100\<close> example window is widened to 300 by either handle: a drag of
  +30 on the east handle gives width 300, not 230, and on the west handle width 300 at
  \<open>x = -50\<close>, not width 170 at \<open>x = 80\<close>.
\<close>

theorem calculateResize_default_minSize_counterexample:
  "width (g_size (calculateResize ''e'' \<lparr> x = 0, y = 0 \<rparr> \<lparr> x = 30, y = 0 \<rparr>
      ex_geometry default_minSize)) = 300
   \<and> width (g_size (calculateResize ''w'' \<lparr> x = 0, y = 0 \<rparr> \<lparr> x = 30, y = 0 \<rparr>
      ex_geometry default_minSize)) = 300
   \<and> x (g_position (calculateResize ''w'' \<lparr> x = 0, y = 0 \<rparr> \<lparr> x = 30, y = 0 \<rparr>
      ex_geometry default_minSize)) = - 50"
  by (simp add: calculateResize_def str_includes_def ex_geometry_def default_minSize_def
      WINDOW_MIN_WIDTH_def WINDOW_MIN_HEIGHT_def Let_def)

lemma west_handles:
  "handle \<in> set resize_handles \<Longrightarrow> str_includes handle CHR ''w'' \<Longrightarrow>
   \<not> str_includes handle CHR ''e''"
  by (auto simp add: resize_handles_def str_includes_def)

text \<open>
  C5 (amended). For each of the eight handles that contains \<open>w\<close>, every start and current
  pointer, original window and minimum size: the new width is \<open>max minSize.width
  (originalWidth - deltaX)\<close>, the new \<open>x\<close> is \<open>originalX + (originalWidth - newWidth)\<close>, and
  so \<open>x + width = originalX + originalWidth\<close> (the east edge stays). For the window of size
  \<open>200 x 100\<close> at \<open>(50, 50)\<close> and a drag of +30 on \<open>x\<close>, provided \<open>minSize.width \<le> 170\<close>:
  handle \<open>e\<close> gives width 230 at \<open>x = 50\<close>, handle \<open>w\<close> gives width 170 at \<open>x = 80\<close>.
\<close>

theorem calculateResize_west_anchor:
  "(handle \<in> set resize_handles \<and> str_includes handle CHR ''w'' \<longrightarrow>
      width (g_size (calculateResize handle startPos currentPos orig minSize))
        = max (width minSize) (width (g_size orig) - (x currentPos - x startPos))
      \<and> x (g_position (calculateResize handle startPos currentPos orig minSize))
        = x (g_position orig) + (width (g_size orig)
            - width (g_size (calculateResize handle startPos currentPos orig minSize)))
      \<and> x (g_position (calculateResize handle startPos currentPos orig minSize))
          + width (g_size (calculateResize handle startPos currentPos orig minSize))
        = x (g_position orig) + width (g_size orig))
   \<and> (width minSize \<le> 170 \<and> x currentPos = x startPos + 30 \<longrightarrow>
      width (g_size (calculateResize ''e'' startPos currentPos ex_geometry minSize)) = 230
      \<and> x (g_position (calculateResize ''e'' startPos currentPos ex_geometry minSize)) = 50
      \<and> width (g_size (calculateResize ''w'' startPos currentPos ex_geometry minSize)) = 170
      \<and> x (g_position (calculateResize ''w'' startPos currentPos ex_geometry minSize)) = 80)"
proof (intro conjI impI)
  assume h: "handle \<in> set resize_handles \<and> str_includes handle CHR ''w''"
  then have ne: "\<not> str_includes handle CHR ''e''"
    by (simp add: west_handles)
  from h have w: "str_includes handle CHR ''w''" by simp
  obtain r where r: "r = calculateResize handle startPos currentPos orig minSize" by simp
  have rw: "width (g_size r) = max (width minSize) (width (g_size orig) - (x currentPos - x startPos))"
    using ne w by (simp add: r calculateResize_def Let_def split: prod.splits)
  have rx: "x (g_position r) = x (g_position orig) + (width (g_size orig) - width (g_size r))"
    using ne w by (simp add: r calculateResize_def Let_def split: prod.splits)
  show "width (g_size (calculateResize handle startPos currentPos orig minSize))
        = max (width minSize) (width (g_size orig) - (x currentPos - x startPos))"
    using rw r by simp
  show "x (g_position (calculateResize handle startPos currentPos orig minSize))
        = x (g_position orig) + (width (g_size orig)
            - width (g_size (calculateResize handle startPos currentPos orig minSize)))"
    using rx r by simp
  show "x (g_position (calculateResize handle startPos currentPos orig minSize))
          + width (g_size (calculateResize handle startPos currentPos orig minSize))
        = x (g_position orig) + width (g_size orig)"
    using rx r by simp
next
  assume h: "width minSize \<le> 170 \<and> x currentPos = x startPos + 30"
  then show "width (g_size (calculateResize ''e'' startPos currentPos ex_geometry minSize)) = 230"
    by (simp add: calculateResize_def str_includes_def ex_geometry_def Let_def)
  from h show "x (g_position (calculateResize ''e'' startPos currentPos ex_geometry minSize)) = 50"
    by (simp add: calculateResize_def str_includes_def ex_geometry_def Let_def)
  from h show "width (g_size (calculateResize ''w'' startPos currentPos ex_geometry minSize)) = 170"
    by (simp add: calculateResize_def str_includes_def ex_geometry_def Let_def)
  from h show "x (g_position (calculateResize ''w'' startPos currentPos ex_geometry minSize)) = 80"
    by (simp add: calculateResize_def str_includes_def ex_geometry_def Let_def)
qed

theorem calculateResize_west_anchor_witness:
  "''nw'' \<in> set resize_handles \<and> str_includes ''nw'' CHR ''w''
   \<and> width (g_size (calculateResize ''nw'' \<lparr> x = 10, y = 10 \<rparr> \<lparr> x = 40, y = 5 \<rparr> ex_geometry
        \<lparr> width = 100, height = 50 \<rparr>)) = 170
   \<and> x (g_position (calculateResize ''nw'' \<lparr> x = 10, y = 10 \<rparr> \<lparr> x = 40, y = 5 \<rparr> ex_geometry
        \<lparr> width = 100, height = 50 \<rparr>)) = 80
   \<and> width (g_size (calculateResize ''e'' \<lparr> x = 10, y = 10 \<rparr> \<lparr> x = 40, y = 5 \<rparr> ex_geometry
        \<lparr> width = 100, height = 50 \<rparr>)) = 230
   \<and> x (g_position (calculateResize ''w'' \<lparr> x = 10, y = 10 \<rparr> \<lparr> x = 40, y = 5 \<rparr> ex_geometry
        \<lparr> width = 100, height = 50 \<rparr>)) = 80"
  using calculateResize_west_anchor
    [of "''nw''" "\<lparr> x = 10, y = 10 \<rparr>" "\<lparr> x = 40, y = 5 \<rparr>" ex_geometry "\<lparr> width = 100, height = 50 \<rparr>"]
  by (simp add: resize_handles_def str_includes_def ex_geometry_def)

section \<open>The store: verified properties\<close>

subsection \<open>The reduction that picks the focus successor\<close>

text \<open>
  Over increasing indices the reduction returns the first index whose window has the
  highest \<open>zIndex\<close>.
\<close>

lemma foldl_max_props:
  "sorted_wrt (<) idxs \<Longrightarrow> \<forall>j\<in>set idxs. m \<le> j \<Longrightarrow>
   foldl (\<lambda>mx k. if zIndex (ws ! k) > zIndex (ws ! mx) then k else mx) m idxs \<in> insert m (set idxs)
   \<and> (\<forall>j\<in>insert m (set idxs). zIndex (ws ! j)
         \<le> zIndex (ws ! foldl (\<lambda>mx k. if zIndex (ws ! k) > zIndex (ws ! mx) then k else mx) m idxs))
   \<and> (\<forall>j\<in>insert m (set idxs).
         j < foldl (\<lambda>mx k. if zIndex (ws ! k) > zIndex (ws ! mx) then k else mx) m idxs
         \<longrightarrow> zIndex (ws ! j)
           < zIndex (ws ! foldl (\<lambda>mx k. if zIndex (ws ! k) > zIndex (ws ! mx) then k else mx) m idxs))"
proof (induction idxs rule: rev_induct)
  case Nil
  then show ?case by simp
next
  case (snoc k idxs)
  let ?f = "\<lambda>mx k. if zIndex (ws ! k) > zIndex (ws ! mx) then k else mx"
  let ?r = "foldl ?f m idxs"
  from snoc.prems have sorted: "sorted_wrt (<) idxs" and below: "\<forall>j\<in>set idxs. j < k"
    and lower: "\<forall>j\<in>set idxs. m \<le> j" and mk: "m \<le> k"
    by (auto simp add: sorted_wrt_append)
  from snoc.IH [OF sorted lower]
  have r_in: "?r \<in> insert m (set idxs)"
    and r_max: "\<forall>j\<in>insert m (set idxs). zIndex (ws ! j) \<le> zIndex (ws ! ?r)"
    and r_first: "\<forall>j\<in>insert m (set idxs). j < ?r \<longrightarrow> zIndex (ws ! j) < zIndex (ws ! ?r)"
    by blast+
  from r_in below mk have r_le: "?r \<le> k" by auto
  show ?case
  proof (cases "zIndex (ws ! k) > zIndex (ws ! ?r)")
    case True
    then have eq: "foldl ?f m (idxs @ [k]) = k" by simp
    show ?thesis unfolding eq using True r_max by force
  next
    case False
    then have eq: "foldl ?f m (idxs @ [k]) = ?r" by simp
    show ?thesis unfolding eq using False r_in r_max r_first r_le by force
  qed
qed

lemma reduce_max_props:
  assumes "idxs \<noteq> []" and "sorted_wrt (<) idxs"
  shows "reduce_max ws idxs \<in> set idxs"
    and "\<forall>j\<in>set idxs. zIndex (ws ! j) \<le> zIndex (ws ! reduce_max ws idxs)"
    and "\<forall>j\<in>set idxs. j < reduce_max ws idxs \<longrightarrow> zIndex (ws ! j) < zIndex (ws ! reduce_max ws idxs)"
proof -
  from assms obtain m rest where idxs: "idxs = m # rest" by (cases idxs) auto
  with assms(2) have lower: "\<forall>j\<in>set idxs. m \<le> j" by auto
  have ins: "insert m (set idxs) = set idxs" using idxs by auto
  have hd: "hd idxs = m" using idxs by simp
  from foldl_max_props [OF assms(2) lower, of ws]
  show "reduce_max ws idxs \<in> set idxs"
    and "\<forall>j\<in>set idxs. zIndex (ws ! j) \<le> zIndex (ws ! reduce_max ws idxs)"
    and "\<forall>j\<in>set idxs. j < reduce_max ws idxs \<longrightarrow> zIndex (ws ! j) < zIndex (ws ! reduce_max ws idxs)"
    unfolding reduce_max_def hd ins by blast+
qed

lemma reduce_max_all:
  assumes "ws \<noteq> []"
  shows "reduce_max ws [0..<length ws] < length ws"
    and "\<forall>j<length ws. zIndex (ws ! j) \<le> zIndex (ws ! reduce_max ws [0..<length ws])"
    and "\<forall>j<reduce_max ws [0..<length ws]. zIndex (ws ! j) < zIndex (ws ! reduce_max ws [0..<length ws])"
proof -
  have ne: "[0..<length ws] \<noteq> []" using assms by simp
  have so: "sorted_wrt (<) [0..<length ws]" by simp
  note p = reduce_max_props [OF ne so, of ws]
  from p(1) show lt: "reduce_max ws [0..<length ws] < length ws" by simp
  from p(2) show "\<forall>j<length ws. zIndex (ws ! j) \<le> zIndex (ws ! reduce_max ws [0..<length ws])" by simp
  from p(3) lt show "\<forall>j<reduce_max ws [0..<length ws]. zIndex (ws ! j) < zIndex (ws ! reduce_max ws [0..<length ws])"
    by simp
qed

lemma reduce_max_visible:
  assumes "filter (\<lambda>k. \<not> isMinimized (ws ! k)) [0..<length ws] \<noteq> []"
  shows "reduce_max ws (filter (\<lambda>k. \<not> isMinimized (ws ! k)) [0..<length ws]) < length ws"
    and "\<not> isMinimized (ws ! reduce_max ws (filter (\<lambda>k. \<not> isMinimized (ws ! k)) [0..<length ws]))"
    and "\<forall>j<length ws. \<not> isMinimized (ws ! j) \<longrightarrow>
           zIndex (ws ! j) \<le> zIndex (ws ! reduce_max ws (filter (\<lambda>k. \<not> isMinimized (ws ! k)) [0..<length ws]))"
proof -
  let ?vis = "filter (\<lambda>k. \<not> isMinimized (ws ! k)) [0..<length ws]"
  have so: "sorted_wrt (<) ?vis" by (simp add: sorted_wrt_filter)
  note p = reduce_max_props [OF assms so, of ws]
  from p(1) show "reduce_max ws ?vis < length ws" by simp
  from p(1) show "\<not> isMinimized (ws ! reduce_max ws ?vis)" by simp
  from p(2) show "\<forall>j<length ws. \<not> isMinimized (ws ! j) \<longrightarrow> zIndex (ws ! j) \<le> zIndex (ws ! reduce_max ws ?vis)"
    by simp
qed

subsection \<open>openWindow\<close>

text \<open>
  C10. \<open>openWindow\<close> keeps the windows that were there in their order and appends the
  new one at the end (its id is the id returned); of a window that was there it changes no
  field but \<open>isFocused\<close>, which becomes false: id, title, component, position, size,
  zIndex, isMinimized, data and the newly-opened mark are all as before.
\<close>

theorem openWindow_frame:
  "butlast (windows (snd (openWindow cfg g s))) = map (\<lambda>w. w\<lparr> isFocused := False \<rparr>) (windows s)
   \<and> length (windows (snd (openWindow cfg g s))) = Suc (length (windows s))
   \<and> wid (last (windows (snd (openWindow cfg g s)))) = fst (openWindow cfg g s)
   \<and> map wid (butlast (windows (snd (openWindow cfg g s)))) = map wid (windows s)
   \<and> map title (butlast (windows (snd (openWindow cfg g s)))) = map title (windows s)
   \<and> map component (butlast (windows (snd (openWindow cfg g s)))) = map component (windows s)
   \<and> map position (butlast (windows (snd (openWindow cfg g s)))) = map position (windows s)
   \<and> map wsize (butlast (windows (snd (openWindow cfg g s)))) = map wsize (windows s)
   \<and> map zIndex (butlast (windows (snd (openWindow cfg g s)))) = map zIndex (windows s)
   \<and> map isMinimized (butlast (windows (snd (openWindow cfg g s)))) = map isMinimized (windows s)
   \<and> map data (butlast (windows (snd (openWindow cfg g s)))) = map data (windows s)
   \<and> map isNewlyOpened (butlast (windows (snd (openWindow cfg g s)))) = map isNewlyOpened (windows s)
   \<and> map isFocused (butlast (windows (snd (openWindow cfg g s))))
       = replicate (length (windows s)) False"
  by (simp add: openWindow_def Let_def comp_def map_replicate_const)

subsection \<open>focusWindow on an id that names no window\<close>

text \<open>
  With one focused window \<open>a\<close>, \<open>focusWindow\<close> on the unknown id \<open>zzz\<close> is not a no-op: \<open>a\<close>
  loses \<open>isFocused\<close>, \<open>nextZIndex\<close> goes from 101 to 102 and \<open>focusedWindowId\<close> becomes
  \<open>zzz\<close>.
\<close>

theorem focusWindow_unknown_id_counterexample:
  "''zzz'' \<notin> set (map wid [ex_window ''a'' 100 True])
   \<and> focusWindow ''zzz'' ((initialState ex_desktop)
         \<lparr> windows := [ex_window ''a'' 100 True], nextZIndex := 101, focusedWindowId := Some ''a'' \<rparr>)
     = (initialState ex_desktop)
         \<lparr> windows := [ex_window ''a'' 100 False], nextZIndex := 102, focusedWindowId := Some ''zzz'' \<rparr>"
  by (simp add: focusWindow_def ex_window_def initialState_def Let_def)

text \<open>
  C3 (amended). For every state and every id that matches no window, \<open>focusWindow\<close>
  changes no window's \<open>zIndex\<close> or \<open>isMinimized\<close> (nor any field other than \<open>isFocused\<close>)
  and keeps the order of the windows; it sets \<open>isFocused\<close> to false on every window,
  increases \<open>nextZIndex\<close> by one and sets \<open>focusedWindowId\<close> to the id. Nothing else in the
  state changes.
\<close>

theorem focusWindow_unknown_id:
  "i \<notin> set (map wid (windows s)) \<longrightarrow>
     windows (focusWindow i s) = map (\<lambda>w. w\<lparr> isFocused := False \<rparr>) (windows s)
     \<and> map zIndex (windows (focusWindow i s)) = map zIndex (windows s)
     \<and> map isMinimized (windows (focusWindow i s)) = map isMinimized (windows s)
     \<and> nextZIndex (focusWindow i s) = nextZIndex s + 1
     \<and> focusedWindowId (focusWindow i s) = Some i
     \<and> focusWindow i s = s\<lparr> windows := map (\<lambda>w. w\<lparr> isFocused := False \<rparr>) (windows s),
                              nextZIndex := nextZIndex s + 1,
                              focusedWindowId := Some i \<rparr>"
proof
  assume h: "i \<notin> set (map wid (windows s))"
  have ws: "map (\<lambda>w. if wid w = i
                      then w\<lparr> isFocused := True, zIndex := nextZIndex s, isMinimized := False \<rparr>
                      else w\<lparr> isFocused := False \<rparr>) (windows s)
            = map (\<lambda>w. w\<lparr> isFocused := False \<rparr>) (windows s)"
    using h by (intro map_cong) auto
  show "windows (focusWindow i s) = map (\<lambda>w. w\<lparr> isFocused := False \<rparr>) (windows s)
     \<and> map zIndex (windows (focusWindow i s)) = map zIndex (windows s)
     \<and> map isMinimized (windows (focusWindow i s)) = map isMinimized (windows s)
     \<and> nextZIndex (focusWindow i s) = nextZIndex s + 1
     \<and> focusedWindowId (focusWindow i s) = Some i
     \<and> focusWindow i s = s\<lparr> windows := map (\<lambda>w. w\<lparr> isFocused := False \<rparr>) (windows s),
                              nextZIndex := nextZIndex s + 1,
                              focusedWindowId := Some i \<rparr>"
    by (simp add: focusWindow_def Let_def ws comp_def)
qed

theorem focusWindow_unknown_id_witness:
  "''zzz'' \<notin> set (map wid (windows ((initialState ex_desktop)\<lparr> windows := [ex_window ''a'' 100 True] \<rparr>)))
   \<and> windows (focusWindow ''zzz'' ((initialState ex_desktop)\<lparr> windows := [ex_window ''a'' 100 True] \<rparr>))
       = [ex_window ''a'' 100 False]
   \<and> nextZIndex (focusWindow ''zzz'' ((initialState ex_desktop)\<lparr> windows := [ex_window ''a'' 100 True] \<rparr>))
       = 101"
  using focusWindow_unknown_id
    [of "''zzz''" "(initialState ex_desktop)\<lparr> windows := [ex_window ''a'' 100 True] \<rparr>"]
  by (simp add: ex_window_def initialState_def Z_INDEX_WINDOW_BASE_def)

subsection \<open>closeWindow\<close>

lemma map_update_same:
  "k < length xs \<Longrightarrow> f v = f (xs ! k) \<Longrightarrow> map f (xs[k := v]) = map f xs"
  by (metis list_update_id map_update nth_map)


text \<open>
  The same in the state a reload produces, where the windows come back with their flags
  and \<open>focusedWindowId\<close> starts as null: closing the flagged window \<open>A\<close> focuses no other.
\<close>

lemma closeWindow_after_reload:
  "closeWindow ''A'' (ex_three_windows\<lparr> focusedWindowId := None \<rparr>)
     = ex_three_windows\<lparr> windows := [ex_window ''C'' 3 False, ex_window ''B'' 7 False],
                          focusedWindowId := None \<rparr>"
  by (simp add: closeWindow_def ex_three_windows_def ex_window_def Let_def)



subsection \<open>centerWindow\<close>

text \<open>
  The height \<open>centerWindow\<close> computes for a desktop 740 pixels high is 461, one less
  than the exact seven tenths of 660.
\<close>

lemma floor_times_0_7_example: "floor_times_0_7 660 = 461 \<and> (660 * 7) div 10 = (462 :: int)"
  by code_simp

subsection \<open>Commands on the abstraction\<close>

lemma core_sel [simp]:
  "c_id (core w) = wid w" "c_z (core w) = zIndex w"
  "c_min (core w) = isMinimized w" "c_foc (core w) = isFocused w"
  by (simp_all add: core_def)

lemma cores_ids: "c_id ` set (map core ws) = set (map wid ws)"
  by (simp add: image_image)

lemma cores_openWindow:
  "map core (windows (snd (openWindow cfg g s)))
     = map (\<lambda>c. Core (c_id c) (c_z c) (c_min c) False) (map core (windows s))
       @ [Core (fst (openWindow cfg g s)) (nextZIndex s) False True]"
  by (simp add: openWindow_def Let_def core_def comp_def)

lemma cores_focusWindow:
  "map core (windows (focusWindow i s))
     = map (\<lambda>c. if c_id c = i then Core (c_id c) (nextZIndex s) False True
                else Core (c_id c) (c_z c) (c_min c) False) (map core (windows s))"
  by (simp add: focusWindow_def Let_def core_def comp_def if_distrib cong: if_cong)

lemma cores_updateWindowWith:
  "(\<And>w. core (f w) = core w) \<Longrightarrow> map core (updateWindowWith i f ws) = map core ws"
  by (simp add: updateWindowWith_def comp_def if_distrib cong: if_cong)

lemma cores_minimize:
  "map core (updateWindowWith i (\<lambda>w. w\<lparr> isMinimized := True, isFocused := False \<rparr>) ws)
     = map (\<lambda>c. if c_id c = i then Core (c_id c) (c_z c) True False else c) (map core ws)"
  by (simp add: updateWindowWith_def core_def comp_def if_distrib cong: if_cong)

lemma cores_set_focused:
  "k < length ws \<Longrightarrow>
   map core (ws[k := (ws ! k)\<lparr> isFocused := True \<rparr>])
     = (map core ws)[k := Core (c_id (map core ws ! k)) (c_z (map core ws ! k))
                            (c_min (map core ws ! k)) True]"
  by (simp add: map_update core_def)

lemma cores_filter:
  "map core (filter (\<lambda>w. wid w \<noteq> i) ws) = filter (\<lambda>c. c_id c \<noteq> i) (map core ws)"
  by (simp add: filter_map comp_def)

subsection \<open>The focus invariant\<close>

lemma core_ok_open:
  assumes ok: "core_ok cs n fid" and fresh: "i \<notin> c_id ` set cs"
  shows "core_ok (map (\<lambda>c. Core (c_id c) (c_z c) (c_min c) False) cs @ [Core i n False True])
           (n + 1) (Some i)"
proof -
  let ?u = "\<lambda>c. Core (c_id c) (c_z c) (c_min c) False"
  have m1: "map c_id (map ?u cs) = map c_id cs" and m2: "map c_z (map ?u cs) = map c_z cs"
    by (simp_all add: comp_def)
  from ok have below: "\<forall>c\<in>set cs. c_z c < n" unfolding core_ok_def by blast
  then have zn: "n \<notin> c_z ` set cs" by auto
  from ok have d: "distinct (map c_id cs)" "distinct (map c_z cs)" unfolding core_ok_def by blast+
  have nf: "\<forall>c\<in>set (map ?u cs). \<not> c_foc c" by simp
  show ?thesis
    unfolding core_ok_def
  proof (intro conjI)
    show "distinct (map c_id (map ?u cs @ [Core i n False True]))"
      using d fresh by (simp add: m1 del: map_map)
    show "distinct (map c_z (map ?u cs @ [Core i n False True]))"
      using d zn by (simp add: m2 del: map_map)
    show "\<forall>c\<in>set (map ?u cs @ [Core i n False True]). c_z c < n + 1"
      using below by auto
    show "\<forall>c\<in>set (map ?u cs @ [Core i n False True]). c_foc c \<longrightarrow>
            \<not> c_min c \<and> Some i = Some (c_id c)
            \<and> (\<forall>d\<in>set (map ?u cs @ [Core i n False True]). \<not> c_min d \<longrightarrow> c_z d \<le> c_z c)"
      using below by auto
    show "(\<exists>c\<in>set (map ?u cs @ [Core i n False True]). \<not> c_min c)
            \<longrightarrow> (\<exists>c\<in>set (map ?u cs @ [Core i n False True]). c_foc c)"
      by simp
    show "(\<forall>c\<in>set (map ?u cs @ [Core i n False True]). \<not> c_foc c) \<longrightarrow> Some i = None"
      by simp
  qed
qed

lemma distinct_z_raise:
  "distinct (map c_id cs) \<Longrightarrow> distinct (map c_z cs) \<Longrightarrow> \<forall>c\<in>set cs. c_z c < n \<Longrightarrow>
   distinct (map (\<lambda>c. if c_id c = i then n else c_z c) cs)"
proof (induction cs)
  case Nil
  then show ?case by simp
next
  case (Cons a cs)
  then have IH: "distinct (map (\<lambda>c. if c_id c = i then n else c_z c) cs)" by simp
  show ?case
  proof (cases "c_id a = i")
    case True
    from Cons.prems have "c_id a \<notin> c_id ` set cs" by simp
    with True have "\<forall>c\<in>set cs. c_id c \<noteq> i" by blast
    moreover from Cons.prems have "\<forall>c\<in>set cs. c_z c \<noteq> n" by auto
    ultimately have "n \<notin> (\<lambda>c. if c_id c = i then n else c_z c) ` set cs" by auto
    with True IH show ?thesis by simp
  next
    case False
    from Cons.prems have "c_z a \<noteq> n" "c_z a \<notin> c_z ` set cs" by auto
    then have "c_z a \<notin> (\<lambda>c. if c_id c = i then n else c_z c) ` set cs" by auto
    with False IH show ?thesis by simp
  qed
qed

lemma core_ok_focus:
  assumes ok: "core_ok cs n fid" and live: "i \<in> c_id ` set cs"
  shows "core_ok (map (\<lambda>c. if c_id c = i then Core (c_id c) n False True
                          else Core (c_id c) (c_z c) (c_min c) False) cs) (n + 1) (Some i)"
proof -
  let ?h = "\<lambda>c. if c_id c = i then Core (c_id c) n False True else Core (c_id c) (c_z c) (c_min c) False"
  have m1: "map c_id (map ?h cs) = map c_id cs"
    by (simp add: comp_def if_distrib cong: if_cong)
  have m2: "map c_z (map ?h cs) = map (\<lambda>c. if c_id c = i then n else c_z c) cs"
    by (simp add: comp_def if_distrib cong: if_cong)
  from ok have below: "\<forall>c\<in>set cs. c_z c < n" and d1: "distinct (map c_id cs)"
    and d2: "distinct (map c_z cs)"
    unfolding core_ok_def by blast+
  show ?thesis
    unfolding core_ok_def m1 m2
  proof (intro conjI)
    show "distinct (map c_id cs)" by (rule d1)
    show "distinct (map (\<lambda>c. if c_id c = i then n else c_z c) cs)"
      using d1 d2 below by (rule distinct_z_raise)
    show "\<forall>c\<in>set (map ?h cs). c_z c < n + 1"
      using below by auto
    show "\<forall>c\<in>set (map ?h cs). c_foc c \<longrightarrow>
            \<not> c_min c \<and> Some i = Some (c_id c) \<and> (\<forall>d\<in>set (map ?h cs). \<not> c_min d \<longrightarrow> c_z d \<le> c_z c)"
      using below by (auto split: if_splits)
    from live obtain c0 where "c0 \<in> set cs" "c_id c0 = i" by blast
    then have "?h c0 \<in> set (map ?h cs)" "c_foc (?h c0)" by simp_all
    then have ex: "\<exists>c\<in>set (map ?h cs). c_foc c" by blast
    then show "(\<exists>c\<in>set (map ?h cs). \<not> c_min c) \<longrightarrow> (\<exists>c\<in>set (map ?h cs). c_foc c)"
      by blast
    from ex show "(\<forall>c\<in>set (map ?h cs). \<not> c_foc c) \<longrightarrow> Some i = None"
      by blast
  qed
qed

lemma list_update_by_key:
  assumes "distinct (map key xs)" and "k < length xs"
  shows "xs[k := f (xs ! k)] = map (\<lambda>a. if key a = key (xs ! k) then f a else a) xs"
proof (rule nth_equalityI)
  show "length (xs[k := f (xs ! k)]) = length (map (\<lambda>a. if key a = key (xs ! k) then f a else a) xs)"
    by simp
next
  fix j assume "j < length (xs[k := f (xs ! k)])"
  then have j: "j < length xs" by simp
  show "xs[k := f (xs ! k)] ! j = map (\<lambda>a. if key a = key (xs ! k) then f a else a) xs ! j"
  proof (cases "j = k")
    case True
    with j show ?thesis by simp
  next
    case False
    from assms j have "(map key xs ! j = map key xs ! k) = (j = k)"
      by (intro nth_eq_iff_index_eq) simp_all
    with False j assms(2) have "key (xs ! j) \<noteq> key (xs ! k)" by simp
    with False j show ?thesis by simp
  qed
qed

lemma core_ok_handoff:
  assumes d1: "distinct (map c_id cs)" and d2: "distinct (map c_z cs)"
    and below: "\<forall>c\<in>set cs. c_z c < n"
    and nofoc: "\<forall>c\<in>set cs. \<not> c_foc c"
    and k: "k < length cs" and vis: "\<not> c_min (cs ! k)"
    and mx: "\<forall>c\<in>set cs. \<not> c_min c \<longrightarrow> c_z c \<le> c_z (cs ! k)"
  shows "core_ok (cs[k := Core (c_id (cs ! k)) (c_z (cs ! k)) (c_min (cs ! k)) True]) n
           (Some (c_id (cs ! k)))"
proof -
  let ?t = "cs ! k"
  let ?h = "\<lambda>c. if c_id c = c_id ?t then Core (c_id c) (c_z c) (c_min c) True else c"
  have upd: "cs[k := Core (c_id ?t) (c_z ?t) (c_min ?t) True] = map ?h cs"
    using list_update_by_key [OF d1 k, of "\<lambda>c. Core (c_id c) (c_z c) (c_min c) True"] by simp
  have m1: "map c_id (map ?h cs) = map c_id cs" and m2: "map c_z (map ?h cs) = map c_z cs"
    by (simp_all add: comp_def if_distrib cong: if_cong)
  from k have t: "?t \<in> set cs" by simp
  from d1 have inj: "inj_on c_id (set cs)" by (simp add: distinct_map)
  have same: "c = ?t" if "c \<in> set cs" "c_id c = c_id ?t" for c
    using inj that(2) that(1) t by (rule inj_onD)
  show ?thesis
    unfolding upd core_ok_def m1 m2
  proof (intro conjI)
    show "distinct (map c_id cs)" by (rule d1)
    show "distinct (map c_z cs)" by (rule d2)
    show "\<forall>c\<in>set (map ?h cs). c_z c < n"
      using below by auto
    show "\<forall>c\<in>set (map ?h cs). c_foc c \<longrightarrow>
            \<not> c_min c \<and> Some (c_id ?t) = Some (c_id c)
            \<and> (\<forall>d\<in>set (map ?h cs). \<not> c_min d \<longrightarrow> c_z d \<le> c_z c)"
    proof (intro ballI impI)
      fix c assume c: "c \<in> set (map ?h cs)" and f: "c_foc c"
      from c obtain c0 where c0: "c0 \<in> set cs" "c = ?h c0" by auto
      with f nofoc have idt: "c_id c0 = c_id ?t" by (auto split: if_splits)
      with c0 same have c0t: "c0 = ?t" by blast
      with c0 have cc: "c_id c = c_id ?t" "c_z c = c_z ?t" "c_min c = c_min ?t" by simp_all
      have "\<forall>d\<in>set (map ?h cs). \<not> c_min d \<longrightarrow> c_z d \<le> c_z ?t"
        using mx by auto
      with cc vis show "\<not> c_min c \<and> Some (c_id ?t) = Some (c_id c)
            \<and> (\<forall>d\<in>set (map ?h cs). \<not> c_min d \<longrightarrow> c_z d \<le> c_z c)"
        by simp
    qed
    from t have "?h ?t \<in> set (map ?h cs)" "c_foc (?h ?t)" by simp_all
    then have ex: "\<exists>c\<in>set (map ?h cs). c_foc c" by blast
    then show "(\<exists>c\<in>set (map ?h cs). \<not> c_min c) \<longrightarrow> (\<exists>c\<in>set (map ?h cs). c_foc c)"
      by blast
    from ex show "(\<forall>c\<in>set (map ?h cs). \<not> c_foc c) \<longrightarrow> Some (c_id ?t) = None"
      by blast
  qed
qed

lemma core_ok_nofocus:
  assumes "distinct (map c_id cs)" and "distinct (map c_z cs)"
    and "\<forall>c\<in>set cs. c_z c < n" and "\<forall>c\<in>set cs. \<not> c_foc c" and "\<forall>c\<in>set cs. c_min c"
  shows "core_ok cs n None"
  using assms unfolding core_ok_def by blast

lemma core_ok_minimize_none:
  assumes ok: "core_ok cs n fid"
    and allmin: "\<forall>c\<in>set (map (\<lambda>c. if c_id c = i then Core (c_id c) (c_z c) True False else c) cs). c_min c"
  shows "core_ok (map (\<lambda>c. if c_id c = i then Core (c_id c) (c_z c) True False else c) cs) n None"
proof -
  let ?g = "\<lambda>c. if c_id c = i then Core (c_id c) (c_z c) True False else c"
  have m1: "map c_id (map ?g cs) = map c_id cs" and m2: "map c_z (map ?g cs) = map c_z cs"
    by (simp_all add: comp_def if_distrib cong: if_cong)
  from ok have below: "\<forall>c\<in>set cs. c_z c < n" and d1: "distinct (map c_id cs)"
    and d2: "distinct (map c_z cs)"
    and foc: "\<forall>c\<in>set cs. c_foc c \<longrightarrow> \<not> c_min c"
    unfolding core_ok_def by blast+
  have nofoc: "\<forall>c\<in>set (map ?g cs). \<not> c_foc c"
  proof
    fix c assume c: "c \<in> set (map ?g cs)"
    then obtain c0 where c0: "c0 \<in> set cs" "c = ?g c0" by auto
    show "\<not> c_foc c"
    proof (cases "c_id c0 = i")
      case True
      with c0 show ?thesis by simp
    next
      case False
      with c0 have "c = c0" by simp
      with allmin c have "c_min c0" by blast
      with foc c0(1) have "\<not> c_foc c0" by blast
      with \<open>c = c0\<close> show ?thesis by simp
    qed
  qed
  show ?thesis
  proof (rule core_ok_nofocus)
    show "distinct (map c_id (map ?g cs))" unfolding m1 by (rule d1)
    show "distinct (map c_z (map ?g cs))" unfolding m2 by (rule d2)
    show "\<forall>c\<in>set (map ?g cs). c_z c < n" using below by auto
    show "\<forall>c\<in>set (map ?g cs). \<not> c_foc c" by (rule nofoc)
    show "\<forall>c\<in>set (map ?g cs). c_min c" by (rule allmin)
  qed
qed

lemma core_ok_minimize_some:
  assumes ok: "core_ok cs n fid"
    and cs1: "cs1 = map (\<lambda>c. if c_id c = i then Core (c_id c) (c_z c) True False else c) cs"
    and k: "k < length cs1" and vis: "\<not> c_min (cs1 ! k)"
    and mx: "\<forall>c\<in>set cs1. \<not> c_min c \<longrightarrow> c_z c \<le> c_z (cs1 ! k)"
  shows "core_ok (cs1[k := Core (c_id (cs1 ! k)) (c_z (cs1 ! k)) (c_min (cs1 ! k)) True]) n
           (Some (c_id (cs1 ! k)))"
proof -
  let ?g = "\<lambda>c. if c_id c = i then Core (c_id c) (c_z c) True False else c"
  have m1: "map c_id cs1 = map c_id cs" and m2: "map c_z cs1 = map c_z cs"
    unfolding cs1 by (simp_all add: comp_def if_distrib cong: if_cong)
  from ok have below: "\<forall>c\<in>set cs. c_z c < n" and d1: "distinct (map c_id cs)"
    and d2: "distinct (map c_z cs)"
    and foc: "\<forall>c\<in>set cs. c_foc c \<longrightarrow>
            \<not> c_min c \<and> fid = Some (c_id c) \<and> (\<forall>d\<in>set cs. \<not> c_min d \<longrightarrow> c_z d \<le> c_z c)"
    unfolding core_ok_def by blast+
  have below1: "\<forall>c\<in>set cs1. c_z c < n" unfolding cs1 using below by auto
  from k have tk: "cs1 ! k \<in> set cs1" by simp
  have unchanged: "c \<in> set cs \<and> c_id c \<noteq> i" if "c \<in> set cs1" "\<not> c_min c" for c
  proof -
    from that(1) obtain c0 where c0: "c0 \<in> set cs" "c = ?g c0" unfolding cs1 by auto
    with that(2) have "c_id c0 \<noteq> i" by (auto split: if_splits)
    with c0 show ?thesis by simp
  qed
  show ?thesis
  proof (cases "\<exists>c0\<in>set cs. c_foc c0 \<and> c_id c0 \<noteq> i")
    case True
    then obtain c0 where c0: "c0 \<in> set cs" "c_foc c0" "c_id c0 \<noteq> i" by blast
    then have c0in: "c0 \<in> set cs1" unfolding cs1 by force
    from foc c0 have c0vis: "\<not> c_min c0" and fid: "fid = Some (c_id c0)"
      and c0max: "\<forall>d\<in>set cs. \<not> c_min d \<longrightarrow> c_z d \<le> c_z c0"
      by blast+
    from mx c0in c0vis have le1: "c_z c0 \<le> c_z (cs1 ! k)" by blast
    from unchanged [OF tk vis] have tkcs: "cs1 ! k \<in> set cs" by blast
    with c0max vis have le2: "c_z (cs1 ! k) \<le> c_z c0" by blast
    from d2 have "inj_on c_z (set cs)" by (simp add: distinct_map)
    moreover from le1 le2 have "c_z (cs1 ! k) = c_z c0" by simp
    ultimately have eq: "cs1 ! k = c0" using tkcs c0(1) by (rule inj_onD)
    have "Core (c_id c0) (c_z c0) (c_min c0) True = c0"
      using c0(2) by (cases c0) simp
    then have upd: "cs1[k := Core (c_id c0) (c_z c0) (c_min c0) True] = cs1"
      using eq by (metis list_update_id)
    have "core_ok cs1 n (Some (c_id c0))"
      unfolding core_ok_def m1 m2
    proof (intro conjI)
      show "distinct (map c_id cs)" by (rule d1)
      show "distinct (map c_z cs)" by (rule d2)
      show "\<forall>c\<in>set cs1. c_z c < n" by (rule below1)
      show "\<forall>c\<in>set cs1. c_foc c \<longrightarrow>
            \<not> c_min c \<and> Some (c_id c0) = Some (c_id c) \<and> (\<forall>d\<in>set cs1. \<not> c_min d \<longrightarrow> c_z d \<le> c_z c)"
      proof (intro ballI impI)
        fix c assume c: "c \<in> set cs1" and f: "c_foc c"
        from c obtain c' where c': "c' \<in> set cs" "c = ?g c'" unfolding cs1 by auto
        with f have "c_id c' \<noteq> i" by (auto split: if_splits)
        with c' have cc: "c = c'" by simp
        from f cc have "c_foc c'" by simp
        with foc c'(1) have "\<not> c_min c' \<and> fid = Some (c_id c')
          \<and> (\<forall>d\<in>set cs. \<not> c_min d \<longrightarrow> c_z d \<le> c_z c')" by blast
        with cc have p: "\<not> c_min c" "fid = Some (c_id c)"
          "\<forall>d\<in>set cs. \<not> c_min d \<longrightarrow> c_z d \<le> c_z c" by simp_all
        have "\<forall>d\<in>set cs1. \<not> c_min d \<longrightarrow> c_z d \<le> c_z c"
          using unchanged p(3) by blast
        with p fid show "\<not> c_min c \<and> Some (c_id c0) = Some (c_id c)
            \<and> (\<forall>d\<in>set cs1. \<not> c_min d \<longrightarrow> c_z d \<le> c_z c)"
          by simp
      qed
      show "(\<exists>c\<in>set cs1. \<not> c_min c) \<longrightarrow> (\<exists>c\<in>set cs1. c_foc c)"
        using c0in c0(2) by blast
      show "(\<forall>c\<in>set cs1. \<not> c_foc c) \<longrightarrow> Some (c_id c0) = None"
        using c0in c0(2) by blast
    qed
    then show ?thesis unfolding eq upd .
  next
    case False
    have nofoc: "\<forall>c\<in>set cs1. \<not> c_foc c"
    proof
      fix c assume "c \<in> set cs1"
      then obtain c' where c': "c' \<in> set cs" "c = ?g c'" unfolding cs1 by auto
      show "\<not> c_foc c"
      proof (cases "c_id c' = i")
        case True
        with c' show ?thesis by simp
      next
        case ne: False
        with c' have "c = c'" by simp
        with False ne c'(1) show ?thesis by blast
      qed
    qed
    show ?thesis
    proof (rule core_ok_handoff)
      show "distinct (map c_id cs1)" unfolding m1 by (rule d1)
      show "distinct (map c_z cs1)" unfolding m2 by (rule d2)
      show "\<forall>c\<in>set cs1. c_z c < n" by (rule below1)
      show "\<forall>c\<in>set cs1. \<not> c_foc c" by (rule nofoc)
      show "k < length cs1" by (rule k)
      show "\<not> c_min (cs1 ! k)" by (rule vis)
      show "\<forall>c\<in>set cs1. \<not> c_min c \<longrightarrow> c_z c \<le> c_z (cs1 ! k)" by (rule mx)
    qed
  qed
qed

lemma core_ok_close_other:
  assumes ok: "core_ok cs n fid" and other: "fid \<noteq> Some i"
  shows "core_ok (filter (\<lambda>c. c_id c \<noteq> i) cs) n fid"
proof -
  let ?rest = "filter (\<lambda>c. c_id c \<noteq> i) cs"
  from ok have below: "\<forall>c\<in>set cs. c_z c < n" and d1: "distinct (map c_id cs)"
    and d2: "distinct (map c_z cs)"
    and foc: "\<forall>c\<in>set cs. c_foc c \<longrightarrow>
            \<not> c_min c \<and> fid = Some (c_id c) \<and> (\<forall>d\<in>set cs. \<not> c_min d \<longrightarrow> c_z d \<le> c_z c)"
    and some: "(\<exists>c\<in>set cs. \<not> c_min c) \<longrightarrow> (\<exists>c\<in>set cs. c_foc c)"
    and none: "(\<forall>c\<in>set cs. \<not> c_foc c) \<longrightarrow> fid = None"
    unfolding core_ok_def by blast+
  have keep: "c \<in> set ?rest" if "c \<in> set cs" "c_foc c" for c
  proof -
    from foc that have "fid = Some (c_id c)" by blast
    with other have "c_id c \<noteq> i" by auto
    with that(1) show ?thesis by simp
  qed
  show ?thesis
    unfolding core_ok_def
  proof (intro conjI)
    show "distinct (map c_id ?rest)" using d1 by (rule distinct_map_filter)
    show "distinct (map c_z ?rest)" using d2 by (rule distinct_map_filter)
    show "\<forall>c\<in>set ?rest. c_z c < n" using below by simp
    show "\<forall>c\<in>set ?rest. c_foc c \<longrightarrow>
            \<not> c_min c \<and> fid = Some (c_id c) \<and> (\<forall>d\<in>set ?rest. \<not> c_min d \<longrightarrow> c_z d \<le> c_z c)"
      using foc by simp
    show "(\<exists>c\<in>set ?rest. \<not> c_min c) \<longrightarrow> (\<exists>c\<in>set ?rest. c_foc c)"
    proof
      assume "\<exists>c\<in>set ?rest. \<not> c_min c"
      then have "\<exists>c\<in>set cs. \<not> c_min c" by auto
      with some obtain c where "c \<in> set cs" "c_foc c" by blast
      with keep show "\<exists>c\<in>set ?rest. c_foc c" by blast
    qed
    show "(\<forall>c\<in>set ?rest. \<not> c_foc c) \<longrightarrow> fid = None"
      using keep none by blast
  qed
qed

lemma core_ok_close_handoff:
  assumes ok: "core_ok cs n fid" and fidi: "fid = Some i"
    and rest: "rest = filter (\<lambda>c. c_id c \<noteq> i) cs"
    and k: "k < length rest" and vis: "\<not> c_min (rest ! k)"
    and mx: "\<forall>c\<in>set rest. c_z c \<le> c_z (rest ! k)"
  shows "core_ok (rest[k := Core (c_id (rest ! k)) (c_z (rest ! k)) (c_min (rest ! k)) True]) n
           (Some (c_id (rest ! k)))"
proof (rule core_ok_handoff)
  from ok have below: "\<forall>c\<in>set cs. c_z c < n" and d1: "distinct (map c_id cs)"
    and d2: "distinct (map c_z cs)"
    and foc: "\<forall>c\<in>set cs. c_foc c \<longrightarrow> fid = Some (c_id c)"
    unfolding core_ok_def by blast+
  show "distinct (map c_id rest)" unfolding rest using d1 by (rule distinct_map_filter)
  show "distinct (map c_z rest)" unfolding rest using d2 by (rule distinct_map_filter)
  show "\<forall>c\<in>set rest. c_z c < n" unfolding rest using below by simp
  show "\<forall>c\<in>set rest. \<not> c_foc c"
  proof
    fix c assume "c \<in> set rest"
    then have c: "c \<in> set cs" "c_id c \<noteq> i" unfolding rest by simp_all
    show "\<not> c_foc c"
    proof
      assume "c_foc c"
      with foc c(1) have "fid = Some (c_id c)" by blast
      with fidi c(2) show False by simp
    qed
  qed
  show "k < length rest" by (rule k)
  show "\<not> c_min (rest ! k)" by (rule vis)
  show "\<forall>c\<in>set rest. \<not> c_min c \<longrightarrow> c_z c \<le> c_z (rest ! k)" using mx by blast
qed

lemma core_ok_empty: "core_ok [] n None"
  by (simp add: core_ok_def)

lemma focus_ok_initialState: "focus_ok (initialState d)"
  by (simp add: focus_ok_def initialState_def core_ok_def)

lemma focus_ok_openWindow:
  assumes "focus_ok s" and "fst (openWindow cfg g s) \<notin> set (map wid (windows s))"
  shows "focus_ok (snd (openWindow cfg g s))"
proof -
  have n: "nextZIndex (snd (openWindow cfg g s)) = nextZIndex s + 1"
    and f: "focusedWindowId (snd (openWindow cfg g s)) = Some (fst (openWindow cfg g s))"
    by (simp_all add: openWindow_def Let_def)
  from assms(2) have "fst (openWindow cfg g s) \<notin> c_id ` set (map core (windows s))"
    unfolding cores_ids .
  with assms(1) show ?thesis
    unfolding focus_ok_def cores_openWindow n f by (rule core_ok_open)
qed

lemma focus_ok_focusWindow:
  assumes "focus_ok s" and "i \<in> set (map wid (windows s))"
  shows "focus_ok (focusWindow i s)"
proof -
  have n: "nextZIndex (focusWindow i s) = nextZIndex s + 1"
    and f: "focusedWindowId (focusWindow i s) = Some i"
    by (simp_all add: focusWindow_def Let_def)
  from assms(2) have "i \<in> c_id ` set (map core (windows s))"
    unfolding cores_ids .
  with assms(1) show ?thesis
    unfolding focus_ok_def cores_focusWindow n f by (rule core_ok_focus)
qed

lemma focus_ok_updateWindowWith:
  assumes "focus_ok s" and "\<And>w. core (f w) = core w"
  shows "focus_ok (s\<lparr> windows := updateWindowWith i f (windows s) \<rparr>)"
  using assms(1) unfolding focus_ok_def by (simp add: cores_updateWindowWith [OF assms(2)])

lemma focus_ok_maximizeWindow: "focus_ok s \<Longrightarrow> focus_ok (maximizeWindow i s)"
  unfolding maximizeWindow_def Let_def by (rule focus_ok_updateWindowWith) (simp_all add: core_def)

lemma focus_ok_centerWindow: "focus_ok s \<Longrightarrow> focus_ok (centerWindow i s)"
  unfolding centerWindow_def Let_def by (rule focus_ok_updateWindowWith) (simp_all add: core_def)

lemma focus_ok_updateWindowPosition: "focus_ok s \<Longrightarrow> focus_ok (updateWindowPosition i p s)"
  unfolding updateWindowPosition_def by (rule focus_ok_updateWindowWith) (simp_all add: core_def)

lemma focus_ok_updateWindowSize: "focus_ok s \<Longrightarrow> focus_ok (updateWindowSize i sz s)"
  unfolding updateWindowSize_def by (rule focus_ok_updateWindowWith) (simp_all add: core_def)

lemma focus_ok_minimizeWindow:
  assumes ok: "focus_ok s"
  shows "focus_ok (minimizeWindow i s)"
proof -
  let ?ws = "updateWindowWith i (\<lambda>w. w\<lparr> isMinimized := True, isFocused := False \<rparr>) (windows s)"
  let ?vis = "filter (\<lambda>k. \<not> isMinimized (?ws ! k)) [0..<length ?ws]"
  let ?k = "reduce_max ?ws ?vis"
  let ?cs = "map core (windows s)"
  let ?cs1 = "map core ?ws"
  have cs1: "?cs1 = map (\<lambda>c. if c_id c = i then Core (c_id c) (c_z c) True False else c) ?cs"
    by (rule cores_minimize)
  from ok have cok: "core_ok ?cs (nextZIndex s) (focusedWindowId s)"
    unfolding focus_ok_def .
  show ?thesis
  proof (cases "?vis = []")
    case True
    then have res: "minimizeWindow i s = s\<lparr> windows := ?ws, focusedWindowId := None \<rparr>"
      by (simp add: minimizeWindow_def Let_def)
    from True have "\<forall>k<length ?ws. isMinimized (?ws ! k)"
      by (simp add: filter_empty_conv)
    then have "\<forall>c\<in>set ?cs1. c_min c"
      by (simp add: all_set_conv_all_nth)
    then have "core_ok ?cs1 (nextZIndex s) None"
      unfolding cs1 using cok by (intro core_ok_minimize_none)
    then show ?thesis unfolding res focus_ok_def by simp
  next
    case False
    then have res: "minimizeWindow i s
        = s\<lparr> windows := ?ws[?k := (?ws ! ?k)\<lparr> isFocused := True \<rparr>],
             focusedWindowId := Some (wid (?ws ! ?k)) \<rparr>"
      by (simp add: minimizeWindow_def Let_def)
    note p = reduce_max_visible [OF False]
    from p(1) have k: "?k < length ?cs1" by simp
    from p(1) p(2) have vis: "\<not> c_min (?cs1 ! ?k)" by simp
    from p(3) have "\<forall>j<length ?cs1. \<not> c_min (?cs1 ! j) \<longrightarrow> c_z (?cs1 ! j) \<le> c_z (?cs1 ! ?k)"
      using p(1) by simp
    then have mx: "\<forall>c\<in>set ?cs1. \<not> c_min c \<longrightarrow> c_z c \<le> c_z (?cs1 ! ?k)"
      by (simp only: all_set_conv_all_nth)
    from cok cs1 k vis mx
    have "core_ok (?cs1[?k := Core (c_id (?cs1 ! ?k)) (c_z (?cs1 ! ?k)) (c_min (?cs1 ! ?k)) True])
            (nextZIndex s) (Some (c_id (?cs1 ! ?k)))"
      by (rule core_ok_minimize_some)
    moreover have "c_id (?cs1 ! ?k) = wid (?ws ! ?k)" using p(1) by simp
    ultimately show ?thesis
      unfolding res focus_ok_def using p(1) by (simp add: cores_set_focused)
  qed
qed

lemma focus_ok_closeWindow:
  assumes ok: "focus_ok s" and adm: "admissible_cmd (CloseWindow i) s"
  shows "focus_ok (closeWindow i s)"
proof -
  let ?ws = "filter (\<lambda>w. wid w \<noteq> i) (windows s)"
  let ?k = "reduce_max ?ws [0..<length ?ws]"
  let ?cs = "map core (windows s)"
  let ?rest = "map core ?ws"
  have rest: "?rest = filter (\<lambda>c. c_id c \<noteq> i) ?cs"
    by (rule cores_filter)
  from ok have cok: "core_ok ?cs (nextZIndex s) (focusedWindowId s)"
    unfolding focus_ok_def .
  show ?thesis
  proof (cases "focusedWindowId s = Some i \<and> ?ws \<noteq> []")
    case True
    then have res: "closeWindow i s
        = s\<lparr> windows := ?ws[?k := (?ws ! ?k)\<lparr> isFocused := True \<rparr>],
             focusedWindowId := Some (wid (?ws ! ?k)) \<rparr>"
      by (simp add: closeWindow_def Let_def)
    from True have ne: "?ws \<noteq> []" and fid: "focusedWindowId s = Some i" by simp_all
    note p = reduce_max_all [OF ne]
    from adm True have "\<not> isMinimized (?ws ! ?k)" by (simp add: Let_def)
    with p(1) have vis: "\<not> c_min (?rest ! ?k)" by simp
    from p(1) have k: "?k < length ?rest" by simp
    from p(2) have "\<forall>j<length ?rest. c_z (?rest ! j) \<le> c_z (?rest ! ?k)"
      using p(1) by simp
    then have mx: "\<forall>c\<in>set ?rest. c_z c \<le> c_z (?rest ! ?k)"
      by (simp only: all_set_conv_all_nth)
    from cok fid rest k vis mx
    have "core_ok (?rest[?k := Core (c_id (?rest ! ?k)) (c_z (?rest ! ?k)) (c_min (?rest ! ?k)) True])
            (nextZIndex s) (Some (c_id (?rest ! ?k)))"
      by (rule core_ok_close_handoff)
    moreover have "c_id (?rest ! ?k) = wid (?ws ! ?k)" using p(1) by simp
    ultimately show ?thesis
      unfolding res focus_ok_def using p(1) by (simp add: cores_set_focused)
  next
    case False
    show ?thesis
    proof (cases "?ws = []")
      case True
      then have res: "closeWindow i s = s\<lparr> windows := [], focusedWindowId := None \<rparr>"
        by (simp add: closeWindow_def Let_def)
      show ?thesis unfolding res focus_ok_def by (simp add: core_ok_empty)
    next
      case ne: False
      with False have other: "focusedWindowId s \<noteq> Some i" by blast
      with ne have res: "closeWindow i s = s\<lparr> windows := ?ws \<rparr>"
        by (simp add: closeWindow_def Let_def)
      from cok other have "core_ok (filter (\<lambda>c. c_id c \<noteq> i) ?cs) (nextZIndex s) (focusedWindowId s)"
        by (rule core_ok_close_other)
      then show ?thesis unfolding res focus_ok_def by (simp add: rest)
    qed
  qed
qed

lemma filter_single:
  "distinct xs \<Longrightarrow> f \<in> set xs \<Longrightarrow> P f \<Longrightarrow> (\<forall>w\<in>set xs. P w \<longrightarrow> w = f) \<Longrightarrow> filter P xs = [f]"
proof (induction xs)
  case Nil
  from Nil.prems(2) show ?case by simp
next
  case (Cons a xs)
  from Cons.prems(4) have rest: "\<forall>w\<in>set xs. P w \<longrightarrow> w = f"
    by (meson list.set_intros(2))
  from Cons.prems(1) have da: "a \<notin> set xs" and dxs: "distinct xs" by simp_all
  show ?case
  proof (cases "a = f")
    case True
    with da have "f \<notin> set xs" by simp
    with rest have "\<forall>w\<in>set xs. \<not> P w" by blast
    then have "filter P xs = []" by (simp only: filter_empty_conv)
    moreover from True Cons.prems(3) have "P a" by simp
    ultimately have "filter P (a # xs) = [a]" by simp
    with True show ?thesis by simp
  next
    case False
    have "\<not> P a"
    proof
      assume "P a"
      with Cons.prems(4) have "a = f" by (meson list.set_intros(1))
      with False show False by simp
    qed
    from False Cons.prems(2) have "f \<in> set xs" by simp
    from dxs this Cons.prems(3) rest have "filter P xs = [f]" by (rule Cons.IH)
    with \<open>\<not> P a\<close> show ?thesis by simp
  qed
qed

lemma core_ok_unique:
  assumes ok: "core_ok cs n fid"
  shows "if (\<exists>c\<in>set cs. \<not> c_min c) then length (filter c_foc cs) = 1 else filter c_foc cs = []"
proof -
  from ok have d2: "distinct (map c_z cs)"
    and foc: "\<forall>c\<in>set cs. c_foc c \<longrightarrow>
            \<not> c_min c \<and> fid = Some (c_id c) \<and> (\<forall>d\<in>set cs. \<not> c_min d \<longrightarrow> c_z d \<le> c_z c)"
    and some: "(\<exists>c\<in>set cs. \<not> c_min c) \<longrightarrow> (\<exists>c\<in>set cs. c_foc c)"
    unfolding core_ok_def by blast+
  from d2 have inj: "inj_on c_z (set cs)" and dist: "distinct cs"
    by (simp_all add: distinct_map)
  show ?thesis
  proof (cases "\<exists>c\<in>set cs. \<not> c_min c")
    case True
    with some obtain f where f: "f \<in> set cs" "c_foc f" by blast
    have one: "\<forall>c\<in>set cs. c_foc c \<longrightarrow> c = f"
    proof (intro ballI impI)
      fix c assume c: "c \<in> set cs" "c_foc c"
      from foc c have cv: "\<not> c_min c" and cm: "\<forall>d\<in>set cs. \<not> c_min d \<longrightarrow> c_z d \<le> c_z c" by blast+
      from foc f have fv: "\<not> c_min f" and fm: "\<forall>d\<in>set cs. \<not> c_min d \<longrightarrow> c_z d \<le> c_z f" by blast+
      from cm f(1) fv have "c_z f \<le> c_z c" by blast
      moreover from fm c(1) cv have "c_z c \<le> c_z f" by blast
      ultimately have "c_z c = c_z f" by simp
      from inj this c(1) f(1) show "c = f" by (rule inj_onD)
    qed
    from dist f one have "filter c_foc cs = [f]" by (rule filter_single)
    with True show ?thesis by simp
  next
    case False
    with foc have "\<forall>c\<in>set cs. \<not> c_foc c" by blast
    then have "filter c_foc cs = []" by (simp add: filter_empty_conv)
    with False show ?thesis by simp
  qed
qed

lemma focus_ok_unique: "focus_ok s \<Longrightarrow> focus_unique s"
proof -
  assume "focus_ok s"
  then have "core_ok (map core (windows s)) (nextZIndex s) (focusedWindowId s)"
    unfolding focus_ok_def .
  from core_ok_unique [OF this]
  have u: "if (\<exists>w\<in>set (windows s). \<not> isMinimized w)
        then length (filter c_foc (map core (windows s))) = 1
        else filter c_foc (map core (windows s)) = []"
    by simp
  have f: "filter c_foc (map core (windows s)) = map core (filter isFocused (windows s))"
    by (simp add: filter_map comp_def)
  show ?thesis
  proof (cases "\<exists>w\<in>set (windows s). \<not> isMinimized w")
    case True
    with u f have "length (map core (filter isFocused (windows s))) = 1" by simp
    then have "length (filter isFocused (windows s)) = 1" by simp
    with True show ?thesis unfolding focus_unique_def list_ex_iff by simp
  next
    case False
    with u f have "map core (filter isFocused (windows s)) = []" by simp
    then have "filter isFocused (windows s) = []" by simp
    with False show ?thesis unfolding focus_unique_def list_ex_iff by simp
  qed
qed

lemma focus_ok_exec:
  assumes ok: "focus_ok s" and adm: "admissible_cmd c s"
  shows "focus_ok (exec c s)"
proof (cases c)
  case (OpenWindow cfg g)
  with adm have "fst (openWindow cfg g s) \<notin> set (map wid (windows s))" by simp
  with ok show ?thesis unfolding OpenWindow exec.simps by (rule focus_ok_openWindow)
next
  case (CloseWindow i)
  from ok adm show ?thesis unfolding CloseWindow exec.simps by (rule focus_ok_closeWindow)
next
  case (FocusWindow i)
  with adm have "i \<in> set (map wid (windows s))" by simp
  with ok show ?thesis unfolding FocusWindow exec.simps by (rule focus_ok_focusWindow)
next
  case (MinimizeWindow i)
  from ok show ?thesis unfolding MinimizeWindow exec.simps by (rule focus_ok_minimizeWindow)
next
  case (RestoreWindow i)
  with adm have "i \<in> set (map wid (windows s))" by simp
  with ok show ?thesis unfolding RestoreWindow exec.simps restoreWindow_def
    by (rule focus_ok_focusWindow)
next
  case (MaximizeWindow i)
  from ok show ?thesis unfolding MaximizeWindow exec.simps by (rule focus_ok_maximizeWindow)
next
  case (CenterWindow i)
  from ok show ?thesis unfolding CenterWindow exec.simps by (rule focus_ok_centerWindow)
next
  case (UpdateWindowPosition i p)
  from ok show ?thesis unfolding UpdateWindowPosition exec.simps
    by (rule focus_ok_updateWindowPosition)
next
  case (UpdateWindowSize i sz)
  from ok show ?thesis unfolding UpdateWindowSize exec.simps by (rule focus_ok_updateWindowSize)
next
  case (SetTheme t)
  from ok show ?thesis unfolding SetTheme exec.simps by (simp add: focus_ok_def setTheme_def)
next
  case (UpdateDesktopSize sz)
  from ok show ?thesis unfolding UpdateDesktopSize exec.simps
    by (simp add: focus_ok_def updateDesktopSize_def)
next
  case (SetIconPositions ps)
  from ok show ?thesis unfolding SetIconPositions exec.simps
    by (simp add: focus_ok_def setIconPositions_def)
next
  case (UpdateIconPosition a p)
  from ok show ?thesis unfolding UpdateIconPosition exec.simps
    by (simp add: focus_ok_def updateIconPosition_def)
next
  case (SetSelectedIcons icons)
  from ok show ?thesis unfolding SetSelectedIcons exec.simps
    by (simp add: focus_ok_def setSelectedIcons_def)
next
  case ClearSelectedIcons
  from ok show ?thesis unfolding ClearSelectedIcons exec.simps
    by (simp add: focus_ok_def clearSelectedIcons_def)
qed

lemma focus_ok_run: "focus_ok s \<Longrightarrow> admissible cs s \<Longrightarrow> focus_ok (run cs s)"
proof (induction cs arbitrary: s)
  case Nil
  then show ?case by simp
next
  case (Cons c cs)
  from Cons.prems have adm: "admissible_cmd c s" and rest: "admissible cs (exec c s)" by simp_all
  from Cons.prems(1) adm have "focus_ok (exec c s)" by (rule focus_ok_exec)
  from this rest have "focus_ok (run cs (exec c s))" by (rule Cons.IH)
  then show ?case by simp
qed

lemma ex_open_a:
  "snd (openWindow (ex_config ''a'') ''g'' (initialState ex_desktop))
     = (initialState ex_desktop)
         \<lparr> windows := [(ex_window ''a'' 100 True)\<lparr> isNewlyOpened := True \<rparr>],
           nextZIndex := 101, focusedWindowId := Some ''a'' \<rparr>"
  by (simp add: openWindow_def ex_config_def initialState_def ex_window_def str_or_def
      getDefaultPosition_def WINDOW_CASCADE_OFFSET_def WINDOW_CASCADE_MAX_def
      WINDOW_INITIAL_WIDTH_def WINDOW_INITIAL_HEIGHT_def Z_INDEX_WINDOW_BASE_def Let_def)

text \<open>
  \<open>focusWindow\<close> on an id that names no window: the only window, which is not
  minimized, loses the focus and no window is focused.
\<close>

theorem focus_unique_counterexample:
  "\<not> focus_unique (run [OpenWindow (ex_config ''a'') ''g'', FocusWindow ''zzz'']
        (initialState ex_desktop))"
  by (simp add: ex_open_a focusWindow_def focus_unique_def ex_window_def Let_def)

text \<open>
  The other ways in which a command sequence leaves the discipline. Closing the focused
  window hands the focus to the highest remaining window even when that window is
  minimized; after that, minimizing another window focuses a second one. And two windows
  opened under one id are both focused by \<open>focusWindow\<close>.
\<close>

lemma close_focuses_minimized:
  "map (\<lambda>w. (wid w, isMinimized w, isFocused w))
     (windows (run [OpenWindow (ex_config ''a'') ''g'', OpenWindow (ex_config ''b'') ''g'',
                    MinimizeWindow ''a'', CloseWindow ''b''] (initialState ex_desktop)))
     = [(''a'', True, True)]"
  by code_simp

lemma two_focused_after_close_and_minimize:
  "map (\<lambda>w. (wid w, isMinimized w, isFocused w))
     (windows (run [OpenWindow (ex_config ''v'') ''g'', OpenWindow (ex_config ''c'') ''g'',
                    OpenWindow (ex_config ''m'') ''g'', OpenWindow (ex_config ''b'') ''g'',
                    MinimizeWindow ''m'', CloseWindow ''b'', MinimizeWindow ''c'']
               (initialState ex_desktop)))
     = [(''v'', False, True), (''c'', True, False), (''m'', True, True)]"
  by code_simp

lemma two_focused_after_duplicate_id:
  "map (\<lambda>w. (wid w, isMinimized w, isFocused w))
     (windows (run [OpenWindow (ex_config ''a'') ''g'', OpenWindow (ex_config ''a'') ''g'',
                    FocusWindow ''a''] (initialState ex_desktop)))
     = [(''a'', False, True), (''a'', False, True)]"
  by code_simp

text \<open>
  C1 (amended). In every state reached from the initial empty state by a sequence of
  store commands in which \<open>openWindow\<close> always gets an id that no live window carries,
  \<open>focusWindow\<close> and \<open>restoreWindow\<close> always name a live window, and \<open>closeWindow\<close> closes
  the focused window only when the remaining window of highest \<open>zIndex\<close> is not
  minimized (or none remains): if at least one window is not minimized then exactly one
  window has \<open>isFocused\<close>; if all windows are minimized or there is none, no window has.
\<close>

theorem focus_unique_admissible:
  "admissible cs (initialState d) \<Longrightarrow> focus_unique (run cs (initialState d))"
  by (rule focus_ok_unique, rule focus_ok_run, rule focus_ok_initialState)

theorem focus_unique_admissible_witness:
  "admissible [OpenWindow (ex_config ''a'') ''g'', OpenWindow (ex_config ''b'') ''g'',
               FocusWindow ''a'', CloseWindow ''a'', MinimizeWindow ''b'']
     (initialState ex_desktop)
   \<and> focus_unique (run [OpenWindow (ex_config ''a'') ''g'', OpenWindow (ex_config ''b'') ''g'',
               FocusWindow ''a'', CloseWindow ''a'', MinimizeWindow ''b'']
     (initialState ex_desktop))"
proof -
  have adm: "admissible [OpenWindow (ex_config ''a'') ''g'', OpenWindow (ex_config ''b'') ''g'',
               FocusWindow ''a'', CloseWindow ''a'', MinimizeWindow ''b'']
     (initialState ex_desktop)"
    by code_simp
  from adm focus_unique_admissible [OF adm] show ?thesis by (rule conjI)
qed

subsection \<open>The z-order invariant\<close>

lemma zkey_in_set:
  "c \<in> set cs \<Longrightarrow> (c_id c, c_z c) \<in> set (map (\<lambda>c. (c_id c, c_z c)) cs)"
  unfolding set_map by (rule image_eqI [of _ _ c]) simp_all

lemma zkey_from_set:
  "(a, b) \<in> set (map (\<lambda>c. (c_id c, c_z c)) cs) \<Longrightarrow> \<exists>d\<in>set cs. c_id d = a \<and> c_z d = b"
  unfolding set_map by (erule imageE) blast

lemma zcore_ok_keys:
  assumes sub: "set (map (\<lambda>c. (c_id c, c_z c)) cs') \<subseteq> set (map (\<lambda>c. (c_id c, c_z c)) cs)"
    and ok: "zcore_ok cs n"
  shows "zcore_ok cs' n"
proof -
  from ok have below: "\<forall>c\<in>set cs. c_z c < n"
    and same: "\<forall>c\<in>set cs. \<forall>d\<in>set cs. c_z c = c_z d \<longrightarrow> c_id c = c_id d"
    unfolding zcore_ok_def by blast+
  have orig: "\<exists>d\<in>set cs. c_id d = c_id c \<and> c_z d = c_z c" if "c \<in> set cs'" for c
  proof -
    from that have "(c_id c, c_z c) \<in> set (map (\<lambda>c. (c_id c, c_z c)) cs')"
      by (rule zkey_in_set)
    with sub have "(c_id c, c_z c) \<in> set (map (\<lambda>c. (c_id c, c_z c)) cs)" by blast
    then show ?thesis by (rule zkey_from_set)
  qed
  show ?thesis
    unfolding zcore_ok_def
  proof (intro conjI ballI impI)
    fix c assume "c \<in> set cs'"
    from orig [OF this] obtain d where "d \<in> set cs" "c_z d = c_z c" by blast
    with below show "c_z c < n" by metis
  next
    fix c d assume cd: "c \<in> set cs'" "d \<in> set cs'" and eq: "c_z c = c_z d"
    from orig [OF cd(1)] obtain c' where c': "c' \<in> set cs" "c_id c' = c_id c" "c_z c' = c_z c"
      by blast
    from orig [OF cd(2)] obtain d' where d': "d' \<in> set cs" "c_id d' = c_id d" "c_z d' = c_z d"
      by blast
    from same c'(1) d'(1) have "c_z c' = c_z d' \<longrightarrow> c_id c' = c_id d'" by blast
    with c' d' eq show "c_id c = c_id d" by simp
  qed
qed

lemma zsame_raise:
  assumes below: "\<forall>c\<in>set cs. c_z c < n"
    and same: "\<forall>c\<in>set cs. \<forall>d\<in>set cs. c_z c = c_z d \<longrightarrow> c_id c = c_id d"
    and c: "(c_id c = i \<and> c_z c = n) \<or> (\<exists>c0\<in>set cs. c_id c = c_id c0 \<and> c_z c = c_z c0)"
    and d: "(c_id d = i \<and> c_z d = n) \<or> (\<exists>d0\<in>set cs. c_id d = c_id d0 \<and> c_z d = c_z d0)"
    and eq: "c_z c = c_z d"
  shows "c_id c = c_id d"
proof (cases "c_z c = n")
  case True
  have cn: "c_id c = i"
  proof (rule disjE [OF c])
    assume "c_id c = i \<and> c_z c = n" then show ?thesis by simp
  next
    assume "\<exists>c0\<in>set cs. c_id c = c_id c0 \<and> c_z c = c_z c0"
    then obtain c0 where "c0 \<in> set cs" "c_z c = c_z c0" by blast
    with below have "c_z c < n" by simp
    with True show ?thesis by simp
  qed
  have dn: "c_id d = i"
  proof (rule disjE [OF d])
    assume "c_id d = i \<and> c_z d = n" then show ?thesis by simp
  next
    assume "\<exists>d0\<in>set cs. c_id d = c_id d0 \<and> c_z d = c_z d0"
    then obtain d0 where "d0 \<in> set cs" "c_z d = c_z d0" by blast
    with below have "c_z d < n" by simp
    with True eq show ?thesis by simp
  qed
  from cn dn show ?thesis by simp
next
  case False
  with c obtain c0 where c0: "c0 \<in> set cs" "c_id c = c_id c0" "c_z c = c_z c0" by blast
  from False eq d obtain d0 where d0: "d0 \<in> set cs" "c_id d = c_id d0" "c_z d = c_z d0" by auto
  from same c0(1) d0(1) have "c_z c0 = c_z d0 \<longrightarrow> c_id c0 = c_id d0" by blast
  with c0 d0 eq show ?thesis by simp
qed

lemma zcore_ok_open:
  assumes ok: "zcore_ok cs n"
  shows "zcore_ok (map (\<lambda>c. Core (c_id c) (c_z c) (c_min c) False) cs @ [Core i n False True]) (n + 1)"
proof -
  let ?u = "\<lambda>c. Core (c_id c) (c_z c) (c_min c) False"
  from ok have below: "\<forall>c\<in>set cs. c_z c < n"
    and same: "\<forall>c\<in>set cs. \<forall>d\<in>set cs. c_z c = c_z d \<longrightarrow> c_id c = c_id d"
    unfolding zcore_ok_def by blast+
  have src: "c = Core i n False True \<or> (\<exists>c0\<in>set cs. c_id c = c_id c0 \<and> c_z c = c_z c0)"
    if "c \<in> set (map ?u cs @ [Core i n False True])" for c
    using that by auto
  show ?thesis
    unfolding zcore_ok_def
  proof (intro conjI ballI impI)
    fix c assume "c \<in> set (map ?u cs @ [Core i n False True])"
    from src [OF this] below show "c_z c < n + 1" by auto
  next
    fix c d assume c: "c \<in> set (map ?u cs @ [Core i n False True])"
      and d: "d \<in> set (map ?u cs @ [Core i n False True])" and eq: "c_z c = c_z d"
    from src [OF c] have c': "(c_id c = i \<and> c_z c = n)
        \<or> (\<exists>c0\<in>set cs. c_id c = c_id c0 \<and> c_z c = c_z c0)" by auto
    from src [OF d] have d': "(c_id d = i \<and> c_z d = n)
        \<or> (\<exists>d0\<in>set cs. c_id d = c_id d0 \<and> c_z d = c_z d0)" by auto
    from below same c' d' eq show "c_id c = c_id d" by (rule zsame_raise)
  qed
qed

lemma zcore_ok_focus:
  assumes ok: "zcore_ok cs n"
  shows "zcore_ok (map (\<lambda>c. if c_id c = i then Core (c_id c) n False True
                      else Core (c_id c) (c_z c) (c_min c) False) cs) (n + 1)"
proof -
  let ?h = "\<lambda>c. if c_id c = i then Core (c_id c) n False True else Core (c_id c) (c_z c) (c_min c) False"
  from ok have below: "\<forall>c\<in>set cs. c_z c < n"
    and same: "\<forall>c\<in>set cs. \<forall>d\<in>set cs. c_z c = c_z d \<longrightarrow> c_id c = c_id d"
    unfolding zcore_ok_def by blast+
  have src: "(c_id c = i \<and> c_z c = n) \<or> (\<exists>c0\<in>set cs. c_id c = c_id c0 \<and> c_z c = c_z c0)"
    if "c \<in> set (map ?h cs)" for c
    using that by (auto split: if_splits)
  show ?thesis
    unfolding zcore_ok_def
  proof (intro conjI ballI impI)
    fix c assume "c \<in> set (map ?h cs)"
    from src [OF this] below show "c_z c < n + 1" by auto
  next
    fix c d assume c: "c \<in> set (map ?h cs)"
      and d: "d \<in> set (map ?h cs)" and eq: "c_z c = c_z d"
    from below same src [OF c] src [OF d] eq show "c_id c = c_id d" by (rule zsame_raise)
  qed
qed

lemma zcore_ok_set_focused:
  assumes "zcore_ok cs n"
  shows "zcore_ok (cs[k := Core (c_id (cs ! k)) (c_z (cs ! k)) (c_min (cs ! k)) True]) n"
proof (cases "k < length cs")
  case True
  then have "map (\<lambda>c. (c_id c, c_z c)) (cs[k := Core (c_id (cs ! k)) (c_z (cs ! k)) (c_min (cs ! k)) True])
      = map (\<lambda>c. (c_id c, c_z c)) cs"
    by (simp add: map_update_same)
  then have "set (map (\<lambda>c. (c_id c, c_z c))
          (cs[k := Core (c_id (cs ! k)) (c_z (cs ! k)) (c_min (cs ! k)) True]))
        \<subseteq> set (map (\<lambda>c. (c_id c, c_z c)) cs)"
    by (simp only: subset_refl)
  then show ?thesis using assms by (rule zcore_ok_keys)
next
  case False
  then have "cs[k := Core (c_id (cs ! k)) (c_z (cs ! k)) (c_min (cs ! k)) True] = cs"
    by (simp add: list_update_beyond)
  with assms show ?thesis by simp
qed

lemma zcore_ok_minimize:
  "zcore_ok cs n \<Longrightarrow>
   zcore_ok (map (\<lambda>c. if c_id c = i then Core (c_id c) (c_z c) True False else c) cs) n"
proof (rule zcore_ok_keys [of _ cs])
  have "map (\<lambda>c. (c_id c, c_z c))
          (map (\<lambda>c. if c_id c = i then Core (c_id c) (c_z c) True False else c) cs)
        = map (\<lambda>c. (c_id c, c_z c)) cs"
    by simp
  then show "set (map (\<lambda>c. (c_id c, c_z c))
          (map (\<lambda>c. if c_id c = i then Core (c_id c) (c_z c) True False else c) cs))
        \<subseteq> set (map (\<lambda>c. (c_id c, c_z c)) cs)"
    by (simp only: subset_refl)
qed

lemma zcore_ok_filter: "zcore_ok cs n \<Longrightarrow> zcore_ok (filter P cs) n"
  unfolding zcore_ok_def by simp

lemma zorder_ok_initialState: "zorder_ok (initialState d)"
  by (simp add: zorder_ok_def zcore_ok_def initialState_def)

lemma zorder_ok_openWindow: "zorder_ok s \<Longrightarrow> zorder_ok (snd (openWindow cfg g s))"
proof -
  assume ok: "zorder_ok s"
  have n: "nextZIndex (snd (openWindow cfg g s)) = nextZIndex s + 1"
    by (simp add: openWindow_def Let_def)
  from ok show ?thesis
    unfolding zorder_ok_def cores_openWindow n by (rule zcore_ok_open)
qed

lemma zorder_ok_focusWindow: "zorder_ok s \<Longrightarrow> zorder_ok (focusWindow i s)"
proof -
  assume ok: "zorder_ok s"
  have n: "nextZIndex (focusWindow i s) = nextZIndex s + 1"
    by (simp add: focusWindow_def Let_def)
  from ok show ?thesis
    unfolding zorder_ok_def cores_focusWindow n by (rule zcore_ok_focus)
qed

lemma zorder_ok_updateWindowWith:
  assumes "zorder_ok s" and "\<And>w. core (f w) = core w"
  shows "zorder_ok (s\<lparr> windows := updateWindowWith i f (windows s) \<rparr>)"
  using assms(1) unfolding zorder_ok_def by (simp add: cores_updateWindowWith [OF assms(2)])

lemma zorder_ok_minimizeWindow:
  assumes ok: "zorder_ok s"
  shows "zorder_ok (minimizeWindow i s)"
proof -
  let ?ws = "updateWindowWith i (\<lambda>w. w\<lparr> isMinimized := True, isFocused := False \<rparr>) (windows s)"
  let ?vis = "filter (\<lambda>k. \<not> isMinimized (?ws ! k)) [0..<length ?ws]"
  let ?k = "reduce_max ?ws ?vis"
  from ok have ok1: "zcore_ok (map core ?ws) (nextZIndex s)"
    unfolding zorder_ok_def cores_minimize by (rule zcore_ok_minimize)
  show ?thesis
  proof (cases "?vis = []")
    case True
    then have res: "minimizeWindow i s = s\<lparr> windows := ?ws, focusedWindowId := None \<rparr>"
      by (simp add: minimizeWindow_def Let_def)
    from ok1 show ?thesis unfolding res zorder_ok_def by simp
  next
    case False
    then have res: "minimizeWindow i s
        = s\<lparr> windows := ?ws[?k := (?ws ! ?k)\<lparr> isFocused := True \<rparr>],
             focusedWindowId := Some (wid (?ws ! ?k)) \<rparr>"
      by (simp add: minimizeWindow_def Let_def)
    have k: "?k < length ?ws" by (rule reduce_max_visible(1) [OF False])
    from ok1 have "zcore_ok ((map core ?ws)[?k := Core (c_id (map core ?ws ! ?k))
        (c_z (map core ?ws ! ?k)) (c_min (map core ?ws ! ?k)) True]) (nextZIndex s)"
      by (rule zcore_ok_set_focused)
    then have "zcore_ok (map core (?ws[?k := (?ws ! ?k)\<lparr> isFocused := True \<rparr>])) (nextZIndex s)"
      by (simp only: cores_set_focused [OF k])
    then show ?thesis unfolding res zorder_ok_def by simp
  qed
qed

lemma zorder_ok_closeWindow:
  assumes ok: "zorder_ok s"
  shows "zorder_ok (closeWindow i s)"
proof -
  let ?ws = "filter (\<lambda>w. wid w \<noteq> i) (windows s)"
  let ?k = "reduce_max ?ws [0..<length ?ws]"
  from ok have ok1: "zcore_ok (map core ?ws) (nextZIndex s)"
    unfolding zorder_ok_def cores_filter by (rule zcore_ok_filter)
  show ?thesis
  proof (cases "focusedWindowId s = Some i \<and> ?ws \<noteq> []")
    case True
    then have res: "closeWindow i s
        = s\<lparr> windows := ?ws[?k := (?ws ! ?k)\<lparr> isFocused := True \<rparr>],
             focusedWindowId := Some (wid (?ws ! ?k)) \<rparr>"
      by (simp add: closeWindow_def Let_def)
    from True have "?ws \<noteq> []" by simp
    then have k: "?k < length ?ws" by (rule reduce_max_all(1))
    from ok1 have "zcore_ok ((map core ?ws)[?k := Core (c_id (map core ?ws ! ?k))
        (c_z (map core ?ws ! ?k)) (c_min (map core ?ws ! ?k)) True]) (nextZIndex s)"
      by (rule zcore_ok_set_focused)
    then have "zcore_ok (map core (?ws[?k := (?ws ! ?k)\<lparr> isFocused := True \<rparr>])) (nextZIndex s)"
      by (simp only: cores_set_focused [OF k])
    then show ?thesis unfolding res zorder_ok_def by simp
  next
    case False
    then have "windows (closeWindow i s) = ?ws" "nextZIndex (closeWindow i s) = nextZIndex s"
      by (auto simp add: closeWindow_def Let_def)
    with ok1 show ?thesis unfolding zorder_ok_def by simp
  qed
qed

lemma zorder_ok_exec: "zorder_ok s \<Longrightarrow> zorder_ok (exec c s)"
proof (cases c)
  case (MaximizeWindow i)
  assume "zorder_ok s"
  then show ?thesis unfolding MaximizeWindow exec.simps maximizeWindow_def Let_def
    by (rule zorder_ok_updateWindowWith) (simp add: core_def)
next
  case (CenterWindow i)
  assume "zorder_ok s"
  then show ?thesis unfolding CenterWindow exec.simps centerWindow_def Let_def
    by (rule zorder_ok_updateWindowWith) (simp add: core_def)
next
  case (UpdateWindowPosition i p)
  assume "zorder_ok s"
  then show ?thesis unfolding UpdateWindowPosition exec.simps updateWindowPosition_def
    by (rule zorder_ok_updateWindowWith) (simp add: core_def)
next
  case (UpdateWindowSize i sz)
  assume "zorder_ok s"
  then show ?thesis unfolding UpdateWindowSize exec.simps updateWindowSize_def
    by (rule zorder_ok_updateWindowWith) (simp add: core_def)
qed (simp_all add: zorder_ok_openWindow zorder_ok_closeWindow zorder_ok_focusWindow
      zorder_ok_minimizeWindow restoreWindow_def,
    simp_all add: zorder_ok_def setTheme_def updateDesktopSize_def setIconPositions_def
      updateIconPosition_def setSelectedIcons_def clearSelectedIcons_def)

lemma zorder_ok_run: "zorder_ok s \<Longrightarrow> zorder_ok (run cs s)"
  by (induction cs arbitrary: s) (simp_all add: zorder_ok_exec)

text \<open>
  Opening two windows under the same explicit id \<open>a\<close> and then focusing \<open>a\<close> gives both
  windows the \<open>zIndex\<close> 102.
\<close>

theorem zIndex_shared_counterexample:
  "map zIndex (windows (run [OpenWindow (ex_config ''a'') ''g'', OpenWindow (ex_config ''a'') ''g'',
        FocusWindow ''a''] (initialState ex_desktop))) = [102, 102]"
  by code_simp

text \<open>
  C2 (amended). Every \<open>focusWindow\<close> (and \<open>restoreWindow\<close>) and every \<open>openWindow\<close>
  increases \<open>nextZIndex\<close> by exactly 1, and the affected window (each window with the
  focused id, or the appended window) gets the value \<open>nextZIndex\<close> had before. In every
  state reached from the initial empty state by store commands, no two windows with
  different ids have the same \<open>zIndex\<close>.
\<close>

theorem zIndex_allocation:
  "nextZIndex (focusWindow i s) = nextZIndex s + 1
   \<and> (\<forall>w\<in>set (windows (focusWindow i s)). wid w = i \<longrightarrow> zIndex w = nextZIndex s)
   \<and> nextZIndex (restoreWindow i s) = nextZIndex s + 1
   \<and> (\<forall>w\<in>set (windows (restoreWindow i s)). wid w = i \<longrightarrow> zIndex w = nextZIndex s)
   \<and> nextZIndex (snd (openWindow cfg g s)) = nextZIndex s + 1
   \<and> zIndex (last (windows (snd (openWindow cfg g s)))) = nextZIndex s
   \<and> wid (last (windows (snd (openWindow cfg g s)))) = fst (openWindow cfg g s)
   \<and> (\<forall>k<length (windows (run cs (initialState d))).
        \<forall>l<length (windows (run cs (initialState d))).
          wid (windows (run cs (initialState d)) ! k) \<noteq> wid (windows (run cs (initialState d)) ! l)
          \<longrightarrow> zIndex (windows (run cs (initialState d)) ! k)
                \<noteq> zIndex (windows (run cs (initialState d)) ! l))"
proof -
  have f1: "nextZIndex (focusWindow i s) = nextZIndex s + 1"
    by (simp add: focusWindow_def Let_def)
  have f2: "\<forall>w\<in>set (windows (focusWindow i s)). wid w = i \<longrightarrow> zIndex w = nextZIndex s"
  proof (intro ballI impI)
    fix w assume w: "w \<in> set (windows (focusWindow i s))" and i: "wid w = i"
    let ?h = "\<lambda>c. if c_id c = i then Core (c_id c) (nextZIndex s) False True
                 else Core (c_id c) (c_z c) (c_min c) False"
    from w have "core w \<in> set (map core (windows (focusWindow i s)))" by simp
    then have "core w \<in> ?h ` set (map core (windows s))"
      unfolding cores_focusWindow by (simp only: set_map)
    then obtain c where c: "c \<in> set (map core (windows s))" and cw: "core w = ?h c"
      by (rule imageE)
    from cw have "c_id (core w) = c_id c" by (simp split: if_splits)
    with i have "c_id c = i" by simp
    with cw have "c_z (core w) = nextZIndex s" by simp
    then show "zIndex w = nextZIndex s" by simp
  qed
  have o1: "nextZIndex (snd (openWindow cfg g s)) = nextZIndex s + 1"
    by (simp add: openWindow_def Let_def)
  have o2: "zIndex (last (windows (snd (openWindow cfg g s)))) = nextZIndex s"
    by (simp add: openWindow_def Let_def)
  have o3: "wid (last (windows (snd (openWindow cfg g s)))) = fst (openWindow cfg g s)"
    by (simp add: openWindow_def Let_def)
  let ?ws = "windows (run cs (initialState d))"
  have "zorder_ok (run cs (initialState d))"
    using zorder_ok_initialState by (rule zorder_ok_run)
  then have same: "\<forall>c\<in>set (map core ?ws). \<forall>d\<in>set (map core ?ws). c_z c = c_z d \<longrightarrow> c_id c = c_id d"
    unfolding zorder_ok_def zcore_ok_def by blast
  have r: "\<forall>k<length ?ws. \<forall>l<length ?ws.
          wid (?ws ! k) \<noteq> wid (?ws ! l) \<longrightarrow> zIndex (?ws ! k) \<noteq> zIndex (?ws ! l)"
  proof (intro allI impI)
    fix k l assume k: "k < length ?ws" and l: "l < length ?ws"
      and ne: "wid (?ws ! k) \<noteq> wid (?ws ! l)"
    from k have ck: "core (?ws ! k) \<in> set (map core ?ws)" by simp
    from l have cl: "core (?ws ! l) \<in> set (map core ?ws)" by simp
    from same ck cl have "c_z (core (?ws ! k)) = c_z (core (?ws ! l))
        \<longrightarrow> c_id (core (?ws ! k)) = c_id (core (?ws ! l))" by blast
    with ne show "zIndex (?ws ! k) \<noteq> zIndex (?ws ! l)" by simp
  qed
  from f1 f2 o1 o2 o3 r show ?thesis
    unfolding restoreWindow_def by (intro conjI)
qed

theorem zIndex_allocation_witness:
  "windows (focusWindow ''C'' ex_three_windows) ! 1 \<in> set (windows (focusWindow ''C'' ex_three_windows))
   \<and> wid (windows (focusWindow ''C'' ex_three_windows) ! 1) = ''C''
   \<and> zIndex (windows (focusWindow ''C'' ex_three_windows) ! 1) = 8
   \<and> length (windows (run [OpenWindow (ex_config ''a'') ''g'', OpenWindow (ex_config ''b'') ''g'']
        (initialState ex_desktop))) = 2
   \<and> wid (windows (run [OpenWindow (ex_config ''a'') ''g'', OpenWindow (ex_config ''b'') ''g'']
        (initialState ex_desktop)) ! 0)
      \<noteq> wid (windows (run [OpenWindow (ex_config ''a'') ''g'', OpenWindow (ex_config ''b'') ''g'']
        (initialState ex_desktop)) ! 1)
   \<and> zIndex (windows (run [OpenWindow (ex_config ''a'') ''g'', OpenWindow (ex_config ''b'') ''g'']
        (initialState ex_desktop)) ! 0)
      \<noteq> zIndex (windows (run [OpenWindow (ex_config ''a'') ''g'', OpenWindow (ex_config ''b'') ''g'']
        (initialState ex_desktop)) ! 1)"
proof -
  let ?f = "windows (focusWindow ''C'' ex_three_windows)"
  let ?cs = "[OpenWindow (ex_config ''a'') ''g'', OpenWindow (ex_config ''b'') ''g'']"
  let ?ws = "windows (run ?cs (initialState ex_desktop))"
  have "length ?f = 3"
    by code_simp
  then have mem: "?f ! 1 \<in> set ?f"
    by simp
  have c: "wid (?f ! 1) = ''C''"
    by code_simp
  have n: "nextZIndex ex_three_windows = 8"
    by (simp add: ex_three_windows_def)
  have len: "length ?ws = 2"
    by code_simp
  have ids: "wid (?ws ! 0) \<noteq> wid (?ws ! 1)"
    by code_simp
  note t = zIndex_allocation [of "''C''" ex_three_windows "ex_config ''a''" "''g''" ?cs ex_desktop]
  from t have t1: "\<forall>w\<in>set ?f. wid w = ''C'' \<longrightarrow> zIndex w = nextZIndex ex_three_windows"
    by (elim conjE)
  from t have t2: "\<forall>k<length ?ws. \<forall>l<length ?ws.
          wid (?ws ! k) \<noteq> wid (?ws ! l) \<longrightarrow> zIndex (?ws ! k) \<noteq> zIndex (?ws ! l)"
    by (elim conjE)
  from t1 mem c have "zIndex (?f ! 1) = nextZIndex ex_three_windows" by blast
  with n have z: "zIndex (?f ! 1) = 8" by simp
  from t2 len have "wid (?ws ! 0) \<noteq> wid (?ws ! 1) \<longrightarrow> zIndex (?ws ! 0) \<noteq> zIndex (?ws ! 1)"
    by simp
  with ids have d: "zIndex (?ws ! 0) \<noteq> zIndex (?ws ! 1)" by blast
  from mem c z len ids d show ?thesis by (intro conjI)
qed

section \<open>Persistence: verified properties\<close>

subsection \<open>Rebuilding the icon map\<close>





subsection \<open>Round trip\<close>



subsection \<open>Invalid payloads\<close>

text \<open>
  A stored text that parses to the number 5 is not an object; loading leaves the stored
  entry where it is.
\<close>

theorem load_non_object_counterexample:
  "ex_parse_number ''5'' = Some (JNum 5)
   \<and> typeof (JNum 5) \<noteq> ''object''
   \<and> items (snd (loadFromLocalStorage ex_parse_number (raw_of (initialState ex_desktop))
        (ex_storage ''5''))) STORAGE_KEY_APP_STATE = Some ''5''"
  by (simp add: loadFromLocalStorage_def getItem_def ex_storage_def ex_parse_number_def)

text \<open>
  A payload with an unknown theme keeps the default theme while its icon positions are
  applied; and the \<open>windows\<close> of a payload are assigned without any check.
\<close>

lemma load_bad_theme_applies_icons:
  "loadFromLocalStorage ex_parse_bad_theme (raw_of (initialState ex_desktop)) (ex_storage ''{neon}'')
     = (\<lparr> r_theme = JStr ''dark'', r_windows = JArr [],
          r_iconPositions = [(JStr ''about'', JObj [(''x'', JNum 20), (''y'', JNum 40)])] \<rparr>,
        ex_storage ''{neon}'')"
  by (simp add: loadFromLocalStorage_def getItem_def ex_storage_def ex_parse_bad_theme_def
      ex_payload_bad_theme_def raw_of_def initialState_def THEMES_def same_key_def Let_def)

lemma load_windows_not_validated:
  "loadFromLocalStorage ex_parse_bad_windows (raw_of (initialState ex_desktop)) (ex_storage ''{5}'')
     = (\<lparr> r_theme = JStr ''light'', r_windows = JNum 5, r_iconPositions = [] \<rparr>,
        ex_storage ''{5}'')"
  by (simp add: loadFromLocalStorage_def getItem_def ex_storage_def ex_parse_bad_windows_def
      ex_payload_bad_windows_def raw_of_def initialState_def THEMES_def Let_def)

text \<open>
  C4 (amended). For a stored, non-empty text that parses: if the payload is not an
  object, loading changes neither the in-memory state nor the store (the entry is not
  deleted). If the payload's theme is not a known theme, the in-memory theme is kept. The
  payload's icon positions are processed independently of the theme: when they are an
  array of entry objects they replace the in-memory map, otherwise the in-memory map is
  kept, and in both cases the stored entry stays. The stored entry is removed only when
  building the icon map throws. (What happens to \<open>windows\<close> is not part of the statement.)
\<close>

theorem load_invalid_payload:
  assumes stored: "getItem ls STORAGE_KEY_APP_STATE = Some (Some saved)"
    and nonempty: "saved \<noteq> []"
    and parses: "JSON_parse saved = Some parsed"
  shows "(falsy parsed \<or> typeof parsed \<noteq> ''object''
            \<longrightarrow> loadFromLocalStorage JSON_parse st ls = (st, ls))
    \<and> (get_prop parsed ''theme'' \<notin> set (map JStr THEMES)
            \<longrightarrow> r_theme (fst (loadFromLocalStorage JSON_parse st ls)) = r_theme st)
    \<and> (\<not> (falsy parsed \<or> typeof parsed \<noteq> ''object'')
         \<and> \<not> falsy (get_prop parsed ''iconPositions'') \<and> isArray (get_prop parsed ''iconPositions'')
         \<and> new_Map [] (elements (get_prop parsed ''iconPositions'')) = Some m
            \<longrightarrow> r_iconPositions (fst (loadFromLocalStorage JSON_parse st ls)) = m
                \<and> snd (loadFromLocalStorage JSON_parse st ls) = ls)
    \<and> (\<not> (\<not> falsy (get_prop parsed ''iconPositions'') \<and> isArray (get_prop parsed ''iconPositions''))
            \<longrightarrow> r_iconPositions (fst (loadFromLocalStorage JSON_parse st ls)) = r_iconPositions st
                \<and> snd (loadFromLocalStorage JSON_parse st ls) = ls)
    \<and> (snd (loadFromLocalStorage JSON_parse st ls) \<noteq> ls
            \<longrightarrow> new_Map [] (elements (get_prop parsed ''iconPositions'')) = None)"
proof (intro conjI impI)
  assume "falsy parsed \<or> typeof parsed \<noteq> ''object''"
  then show "loadFromLocalStorage JSON_parse st ls = (st, ls)"
    unfolding loadFromLocalStorage_def stored using nonempty parses by simp
next
  assume "get_prop parsed ''theme'' \<notin> set (map JStr THEMES)"
  then show "r_theme (fst (loadFromLocalStorage JSON_parse st ls)) = r_theme st"
    unfolding loadFromLocalStorage_def stored using nonempty parses
    by (simp add: Let_def split: option.split)
next
  assume h: "\<not> (falsy parsed \<or> typeof parsed \<noteq> ''object'')
         \<and> \<not> falsy (get_prop parsed ''iconPositions'') \<and> isArray (get_prop parsed ''iconPositions'')
         \<and> new_Map [] (elements (get_prop parsed ''iconPositions'')) = Some m"
  then show "r_iconPositions (fst (loadFromLocalStorage JSON_parse st ls)) = m"
    unfolding loadFromLocalStorage_def stored using nonempty parses
    by (simp add: Let_def)
  from h show "snd (loadFromLocalStorage JSON_parse st ls) = ls"
    unfolding loadFromLocalStorage_def stored using nonempty parses
    by (simp add: Let_def)
next
  assume h: "\<not> (\<not> falsy (get_prop parsed ''iconPositions'') \<and> isArray (get_prop parsed ''iconPositions''))"
  then show "r_iconPositions (fst (loadFromLocalStorage JSON_parse st ls)) = r_iconPositions st"
    unfolding loadFromLocalStorage_def stored using nonempty parses
    by (auto simp add: Let_def)
  from h show "snd (loadFromLocalStorage JSON_parse st ls) = ls"
    unfolding loadFromLocalStorage_def stored using nonempty parses
    by (auto simp add: Let_def)
next
  assume "snd (loadFromLocalStorage JSON_parse st ls) \<noteq> ls"
  then show "new_Map [] (elements (get_prop parsed ''iconPositions'')) = None"
    unfolding loadFromLocalStorage_def stored using nonempty parses
    by (auto simp add: Let_def split: if_splits option.splits)
qed

theorem load_invalid_payload_witness:
  "getItem (ex_storage ''5'') STORAGE_KEY_APP_STATE = Some (Some ''5'')
   \<and> ''5'' \<noteq> []
   \<and> ex_parse_number ''5'' = Some (JNum 5)
   \<and> (falsy (JNum 5) \<or> typeof (JNum 5) \<noteq> ''object'')
   \<and> loadFromLocalStorage ex_parse_number (raw_of (initialState ex_desktop)) (ex_storage ''5'')
       = (raw_of (initialState ex_desktop), ex_storage ''5'')
   \<and> getItem (ex_storage ''{neon}'') STORAGE_KEY_APP_STATE = Some (Some ''{neon}'')
   \<and> ex_parse_bad_theme ''{neon}'' = Some ex_payload_bad_theme
   \<and> get_prop ex_payload_bad_theme ''theme'' \<notin> set (map JStr THEMES)
   \<and> r_theme (fst (loadFromLocalStorage ex_parse_bad_theme (raw_of (initialState ex_desktop))
         (ex_storage ''{neon}''))) = r_theme (raw_of (initialState ex_desktop))"
proof -
  have s1: "getItem (ex_storage ''5'') STORAGE_KEY_APP_STATE = Some (Some ''5'')"
    by (simp add: getItem_def ex_storage_def)
  have n1: "''5'' \<noteq> []" by simp
  have p1: "ex_parse_number ''5'' = Some (JNum 5)"
    by (simp add: ex_parse_number_def)
  have t1: "falsy (JNum 5) \<or> typeof (JNum 5) \<noteq> ''object''" by simp
  from load_invalid_payload [where ls = "ex_storage ''5''" and saved = "''5''"
      and JSON_parse = ex_parse_number and parsed = "JNum 5"
      and st = "raw_of (initialState ex_desktop)", OF s1 n1 p1]
  have "falsy (JNum 5) \<or> typeof (JNum 5) \<noteq> ''object''
      \<longrightarrow> loadFromLocalStorage ex_parse_number (raw_of (initialState ex_desktop)) (ex_storage ''5'')
          = (raw_of (initialState ex_desktop), ex_storage ''5'')"
    by (rule conjunct1)
  with t1 have r1: "loadFromLocalStorage ex_parse_number (raw_of (initialState ex_desktop))
      (ex_storage ''5'') = (raw_of (initialState ex_desktop), ex_storage ''5'')"
    by (rule rev_mp)
  have s2: "getItem (ex_storage ''{neon}'') STORAGE_KEY_APP_STATE = Some (Some ''{neon}'')"
    by (simp add: getItem_def ex_storage_def)
  have n2: "''{neon}'' \<noteq> []" by simp
  have p2: "ex_parse_bad_theme ''{neon}'' = Some ex_payload_bad_theme"
    by (simp add: ex_parse_bad_theme_def)
  have t2: "get_prop ex_payload_bad_theme ''theme'' \<notin> set (map JStr THEMES)"
    by (simp add: ex_payload_bad_theme_def THEMES_def)
  from load_invalid_payload [where ls = "ex_storage ''{neon}''" and saved = "''{neon}''"
      and JSON_parse = ex_parse_bad_theme and parsed = ex_payload_bad_theme
      and st = "raw_of (initialState ex_desktop)", OF s2 n2 p2]
  have "get_prop ex_payload_bad_theme ''theme'' \<notin> set (map JStr THEMES)
      \<longrightarrow> r_theme (fst (loadFromLocalStorage ex_parse_bad_theme (raw_of (initialState ex_desktop))
            (ex_storage ''{neon}''))) = r_theme (raw_of (initialState ex_desktop))"
    by (rule conjunct2 [THEN conjunct1])
  with t2 have r2: "r_theme (fst (loadFromLocalStorage ex_parse_bad_theme
      (raw_of (initialState ex_desktop)) (ex_storage ''{neon}''))) = r_theme (raw_of (initialState ex_desktop))"
    by (rule rev_mp)
  from s1 n1 p1 t1 r1 s2 p2 t2 r2 show ?thesis by (intro conjI)
qed

end
